theory Spec2Isabelle
  imports Complex_Main "HOL-Library.Product_Lexorder"
begin

section \<open>The spatial hash grid of the broad phase (hash\_grid.hpp, hash\_grid.cpp)\<close>

text \<open>
  Conventions of the embedding.
  \<^item> A \<open>double\<close> is a real number: rounding, infinities and NaN are outside the model.
  \<^item> An \<open>int\<close> is a mathematical integer; where the source computes in \<open>int\<close> and the
    value can leave 32 bits (the cell hash) the two's complement wrap-around is
    written out with \<open>wrap32\<close>, and the conversion of a \<open>double\<close> to \<open>int\<close> (\<open>cast_int\<close>)
    yields a 32-bit value.
  \<^item> An \<open>Eigen::ArrayMax3d\<close>, \<open>VectorX3d\<close> or \<open>ArrayMax3i\<close> is the list of its
    coefficients; an \<open>Eigen::MatrixXd\<close> or \<open>MatrixXi\<close> is the list of its rows.
  \<^item> A failed \<open>assert\<close> is the value \<open>Inl AssertionFailed\<close>; a coefficient read
    outside a vector or matrix is \<open>Inl IndexOutOfBounds\<close>; a coefficient-wise operation
    on arrays of different sizes is \<open>Inl SizeMismatch\<close>.
  \<^item> The TBB parallel loops are run serially in index order and \<open>tbb::parallel_sort\<close>
    is a sort by the element's \<open>operator<\<close>; items that compare equal keep their order.
  \<^item> The overload of \<open>resize\<close> that sizes the grid from mesh statistics, and the free
    functions it calls (norms of rows), are left out: no property below is about them.
  \<^item> Indices into vectors that only count up from 0 (\<open>i\<close>, \<open>j\<close>, \<open>j_start\<close>) are natural
    numbers: the vectors are taken to be shorter than \<open>2 ^ 31\<close>.
\<close>

subsection \<open>Errors and sequencing\<close>

datatype error = AssertionFailed | IndexOutOfBounds | SizeMismatch

definition bind_r :: "error + 'a \<Rightarrow> ('a \<Rightarrow> error + 'b) \<Rightarrow> error + 'b" where
  "bind_r m f = (case m of Inl e \<Rightarrow> Inl e | Inr v \<Rightarrow> f v)"

text \<open>The short-circuit operators \<open>||\<close> and \<open>&&\<close>: the right operand is evaluated only
  when the left one does not decide.\<close>

definition or_else :: "error + bool \<Rightarrow> error + bool \<Rightarrow> error + bool" where
  "or_else p q = bind_r p (\<lambda>b. if b then Inr True else q)"

definition and_also :: "error + bool \<Rightarrow> error + bool \<Rightarrow> error + bool" where
  "and_also p q = bind_r p (\<lambda>b. if b then q else Inr False)"

definition eq_r :: "error + 'a \<Rightarrow> error + 'a \<Rightarrow> error + bool" where
  "eq_r p q = bind_r p (\<lambda>a. bind_r q (\<lambda>b. Inr (a = b)))"

text \<open>A serial \<open>for\<close> loop over a range, threading the state and stopping at the first
  failure.\<close>

fun for_each :: "'a list \<Rightarrow> ('a \<Rightarrow> 's \<Rightarrow> error + 's) \<Rightarrow> 's \<Rightarrow> error + 's" where
  "for_each [] body s = Inr s"
| "for_each (x # xs) body s = bind_r (body x s) (for_each xs body)"

subsection \<open>Vectors and matrices\<close>

type_synonym vec = "real list"
type_synonym ivec = "int list"
type_synonym rmat = "real list list"
type_synonym imat = "int list list"

definition coeff :: "'a list \<Rightarrow> nat \<Rightarrow> error + 'a" where
  "coeff v k = (if k < length v then Inr (v ! k) else Inl IndexOutOfBounds)"

text \<open>\<open>v(i)\<close> and \<open>m.row(i)\<close> with a signed index.\<close>

definition at_i :: "'a list \<Rightarrow> int \<Rightarrow> error + 'a" where
  "at_i v i = (if 0 \<le> i \<and> i < int (length v) then Inr (v ! nat i) else Inl IndexOutOfBounds)"

text \<open>\<open>m(i, j)\<close>.\<close>

definition mat_at :: "'a list list \<Rightarrow> int \<Rightarrow> int \<Rightarrow> error + 'a" where
  "mat_at m i j = bind_r (at_i m i) (\<lambda>row. at_i row j)"

definition rows :: "'a list list \<Rightarrow> nat" where
  "rows m = length m"

definition cols :: "'a list list \<Rightarrow> nat" where
  "cols m = (case m of [] \<Rightarrow> 0 | r # _ \<Rightarrow> length r)"

text \<open>A coefficient-wise binary operation of Eigen.\<close>

definition cwise :: "('a \<Rightarrow> 'b \<Rightarrow> 'c) \<Rightarrow> 'a list \<Rightarrow> 'b list \<Rightarrow> error + 'c list" where
  "cwise f a b = (if length a = length b then Inr (map2 f a b) else Inl SizeMismatch)"

text \<open>\<open>cast<int>()\<close> of a double into a 32-bit \<open>int\<close>: truncation towards zero. For a value
  whose truncation is outside the range of \<open>int\<close> the conversion is undefined in C++; the
  x86 conversion instruction returns \<open>INT_MIN\<close> then, and that is the value taken here.\<close>

definition cast_int :: "real \<Rightarrow> int" where
  "cast_int r =
     (let t = (if 0 \<le> r then \<lfloor>r\<rfloor> else \<lceil>r\<rceil>)
      in if - (2 ^ 31) \<le> t \<and> t < 2 ^ 31 then t else - (2 ^ 31))"

text \<open>The value of a 32-bit \<open>int\<close> holding the integer \<open>i\<close> modulo \<open>2 ^ 32\<close>.\<close>

definition wrap32 :: "int \<Rightarrow> int" where
  "wrap32 i = (i + 2 ^ 31) mod 2 ^ 32 - 2 ^ 31"

subsection \<open>AABB\<close>

record AABB =
  aabb_min :: vec
  aabb_max :: vec
  half_extent :: vec
  center :: vec

text \<open>The constructor \<open>AABB(min, max)\<close>.\<close>

definition mk_AABB :: "vec \<Rightarrow> vec \<Rightarrow> error + AABB" where
  "mk_AABB mn mx =
     (if length mn \<noteq> length mx then Inl AssertionFailed
      else if \<not> list_all2 (\<le>) mn mx then Inl AssertionFailed
      else
        (let he = map2 (\<lambda>hi lo. (hi - lo) / 2) mx mn
         in Inr \<lparr>aabb_min = mn, aabb_max = mx, half_extent = he,
                 center = map2 (+) mn he\<rparr>))"

text \<open>One conjunct of \<open>AABB::are_overlapping\<close>, on coefficient \<open>k\<close>.\<close>

definition axis_overlap :: "AABB \<Rightarrow> AABB \<Rightarrow> nat \<Rightarrow> error + bool" where
  "axis_overlap a b k =
     bind_r (coeff (center a) k) (\<lambda>ca.
     bind_r (coeff (center b) k) (\<lambda>cb.
     bind_r (coeff (half_extent a) k) (\<lambda>ha.
     bind_r (coeff (half_extent b) k) (\<lambda>hb.
       Inr (\<bar>ca - cb\<bar> \<le> ha + hb)))))"

definition are_overlapping :: "AABB \<Rightarrow> AABB \<Rightarrow> error + bool" where
  "are_overlapping a b =
     (if length (aabb_min a) \<noteq> length (aabb_min b) then Inl AssertionFailed
      else
        and_also (and_also (axis_overlap a b 0) (axis_overlap a b 1))
          (if length (aabb_min a) = 2 then Inr True else axis_overlap a b 2))"

subsection \<open>HashItem\<close>

record HashItem =
  key :: int
  item_id :: int
  aabb :: AABB

text \<open>\<open>HashItem::operator<\<close>: by key, ties broken by id.\<close>

definition item_less :: "HashItem \<Rightarrow> HashItem \<Rightarrow> bool" where
  "item_less a b = (if key a = key b then item_id a < item_id b else key a < key b)"

text \<open>\<open>tbb::parallel_sort\<close> of a vector of items: the items in ascending (key, id).\<close>

definition sort_items :: "HashItem list \<Rightarrow> HashItem list" where
  "sort_items items = sort_key (\<lambda>h. (key h, item_id h)) items"

subsection \<open>Candidates\<close>

text \<open>
  Modelled from the spec: the candidate types (EdgeVertexCandidate, EdgeEdgeCandidate,
  EdgeFaceCandidate, FaceVertexCandidate of collision\_candidate.hpp) are not among the
  sources. A candidate is the pair of ids it is constructed from, candidates are
  totally ordered (by first id, then second id), and two candidates are equal when both
  ids are.
\<close>

type_synonym candidate = "int \<times> int"

text \<open>The tail of both \<open>getPairs\<close>: sort, \<open>std::unique\<close>, erase.\<close>

definition sort_unique :: "candidate list \<Rightarrow> candidate list" where
  "sort_unique candidates = remdups_adj (sort candidates)"

subsection \<open>The pair extractor\<close>

type_synonym pair_pred = "int \<Rightarrow> int \<Rightarrow> error + bool"

text \<open>The condition under which a pair with equal keys is emitted.\<close>

definition passes :: "pair_pred \<Rightarrow> pair_pred \<Rightarrow> HashItem \<Rightarrow> HashItem \<Rightarrow> error + bool" where
  "passes is_endpoint is_same_group item0 item1 =
     and_also
       (and_also
          (bind_r (is_endpoint (item_id item0) (item_id item1)) (\<lambda>b. Inr (\<not> b)))
          (bind_r (is_same_group (item_id item0) (item_id item1)) (\<lambda>b. Inr (\<not> b))))
       (are_overlapping (aabb item0) (aabb item1))"

text \<open>The inner \<open>while (j < items1.size())\<close> of the two-bucket \<open>getPairs\<close>; it returns the
  final \<open>j\<close> with the candidates.\<close>

function inner_scan ::
  "pair_pred \<Rightarrow> pair_pred \<Rightarrow> HashItem \<Rightarrow> HashItem list \<Rightarrow> nat \<Rightarrow> candidate list
     \<Rightarrow> error + (nat \<times> candidate list)" where
  "inner_scan is_endpoint is_same_group item0 items1 j candidates =
     (if j < length items1 then
        (let item1 = items1 ! j in
         if key item0 = key item1 then
           bind_r (passes is_endpoint is_same_group item0 item1) (\<lambda>emit.
             inner_scan is_endpoint is_same_group item0 items1 (j + 1)
               (if emit then candidates @ [(item_id item0, item_id item1)] else candidates))
         else Inr (j, candidates))
      else Inr (j, candidates))"
  by pat_completeness auto
termination
  by (relation "measure (\<lambda>(ep, sg, item0, items1, j, c). length items1 - j)") auto

text \<open>The outer \<open>while (i < items0.size() && j_start < items1.size())\<close>.\<close>

function outer_scan ::
  "pair_pred \<Rightarrow> pair_pred \<Rightarrow> HashItem list \<Rightarrow> HashItem list \<Rightarrow> nat \<Rightarrow> nat
     \<Rightarrow> candidate list \<Rightarrow> error + candidate list" where
  "outer_scan is_endpoint is_same_group items0 items1 i j_start candidates =
     (if i < length items0 \<and> j_start < length items1 then
        (let item0 = items0 ! i in
         bind_r (inner_scan is_endpoint is_same_group item0 items1 j_start candidates)
           (\<lambda>(j, candidates').
              outer_scan is_endpoint is_same_group items0 items1 (i + 1)
                (if i = length items0 - 1 \<or> key item0 \<noteq> key (items0 ! (i + 1))
                 then j else j_start)
                candidates'))
      else Inr candidates)"
  by pat_completeness auto
termination
  by (relation "measure (\<lambda>(ep, sg, items0, items1, i, js, c). length items0 - i)") auto

text \<open>\<open>getPairs(is_endpoint, is_same_group, items0, items1, candidates)\<close>: both item
  vectors are sorted in place, so they are returned with the candidates.\<close>

definition getPairs ::
  "pair_pred \<Rightarrow> pair_pred \<Rightarrow> HashItem list \<Rightarrow> HashItem list \<Rightarrow> candidate list
     \<Rightarrow> error + (HashItem list \<times> HashItem list \<times> candidate list)" where
  "getPairs is_endpoint is_same_group items0 items1 candidates =
     (let items0' = sort_items items0; items1' = sort_items items1
      in bind_r (outer_scan is_endpoint is_same_group items0' items1' 0 0 candidates)
           (\<lambda>found. Inr (items0', items1', sort_unique found)))"

text \<open>The inner \<open>for (int j = i + 1; j < items.size(); j++)\<close> of the single-bucket
  \<open>getPairs\<close>.\<close>

function self_inner ::
  "pair_pred \<Rightarrow> pair_pred \<Rightarrow> HashItem \<Rightarrow> HashItem list \<Rightarrow> nat \<Rightarrow> candidate list
     \<Rightarrow> error + candidate list" where
  "self_inner is_endpoint is_same_group item0 items j candidates =
     (if j < length items then
        (let item1 = items ! j in
         if key item0 = key item1 then
           bind_r (passes is_endpoint is_same_group item0 item1) (\<lambda>emit.
             self_inner is_endpoint is_same_group item0 items (j + 1)
               (if emit then candidates @ [(item_id item0, item_id item1)] else candidates))
         else Inr candidates)
      else Inr candidates)"
  by pat_completeness auto
termination
  by (relation "measure (\<lambda>(ep, sg, item0, items, j, c). length items - j)") auto

text \<open>The outer \<open>for (int i = 0; i < items.size(); i++)\<close>.\<close>

function self_outer ::
  "pair_pred \<Rightarrow> pair_pred \<Rightarrow> HashItem list \<Rightarrow> nat \<Rightarrow> candidate list
     \<Rightarrow> error + candidate list" where
  "self_outer is_endpoint is_same_group items i candidates =
     (if i < length items then
        bind_r (self_inner is_endpoint is_same_group (items ! i) items (i + 1) candidates)
          (self_outer is_endpoint is_same_group items (i + 1))
      else Inr candidates)"
  by pat_completeness auto
termination
  by (relation "measure (\<lambda>(ep, sg, items, i, c). length items - i)") auto

text \<open>\<open>getPairs(is_endpoint, is_same_group, items, candidates)\<close>.\<close>

definition getPairs_self ::
  "pair_pred \<Rightarrow> pair_pred \<Rightarrow> HashItem list \<Rightarrow> candidate list
     \<Rightarrow> error + (HashItem list \<times> candidate list)" where
  "getPairs_self is_endpoint is_same_group items candidates =
     (let items' = sort_items items
      in bind_r (self_outer is_endpoint is_same_group items' 0 candidates)
           (\<lambda>found. Inr (items', sort_unique found)))"

subsection \<open>HashGrid\<close>

record HashGrid =
  m_cellSize :: real
  m_gridSize :: ivec
  m_domainMin :: vec
  m_domainMax :: vec
  m_vertexItems :: "HashItem list"
  m_edgeItems :: "HashItem list"
  m_faceItems :: "HashItem list"

definition clear :: "HashGrid \<Rightarrow> HashGrid" where
  "clear g = g\<lparr>m_vertexItems := [], m_edgeItems := [], m_faceItems := []\<rparr>"

text \<open>\<open>HashGrid::resize(min, max, cellSize)\<close>; the grid size is
  \<open>((max - min) / m_cellSize).ceil().cast<int>().max(1)\<close>, an array of 32-bit \<open>int\<close>.\<close>

definition resize :: "HashGrid \<Rightarrow> vec \<Rightarrow> vec \<Rightarrow> real \<Rightarrow> error + HashGrid" where
  "resize g mn mx cellSize =
     (let g1 = clear g in
      if \<not> cellSize \<noteq> 0 then Inl AssertionFailed
      else
        (let g2 = g1\<lparr>m_cellSize := cellSize, m_domainMin := mn, m_domainMax := mx\<rparr>
         in bind_r (cwise (-) mx mn) (\<lambda>extent.
              Inr (g2\<lparr>m_gridSize :=
                         map (\<lambda>d. max (cast_int (of_int \<lceil>d / m_cellSize g2\<rceil>)) 1)
                           extent\<rparr>))))"

text \<open>\<open>HashGrid::hash(x, y, z)\<close>: the arithmetic is on \<open>int\<close> operands, so every
  operation wraps at 32 bits before the result is widened to \<open>long\<close>.\<close>

definition hash :: "HashGrid \<Rightarrow> int \<Rightarrow> int \<Rightarrow> int \<Rightarrow> error + int" where
  "hash g x y z =
     (if \<not> (x \<ge> 0 \<and> y \<ge> 0 \<and> z \<ge> 0) then Inl AssertionFailed
      else
        bind_r
          (and_also
             (and_also (bind_r (coeff (m_gridSize g) 0) (\<lambda>g0. Inr (x < g0)))
                       (bind_r (coeff (m_gridSize g) 1) (\<lambda>g1. Inr (y < g1))))
             (or_else (Inr (length (m_gridSize g) = 2))
                      (bind_r (coeff (m_gridSize g) 2) (\<lambda>g2. Inr (z < g2)))))
          (\<lambda>in_range.
             if \<not> in_range then Inl AssertionFailed
             else
               bind_r (coeff (m_gridSize g) 1) (\<lambda>g1.
               bind_r (coeff (m_gridSize g) 0) (\<lambda>g0.
                 Inr (wrap32 (wrap32 (wrap32 (wrap32 (z * g1) + y) * g0) + x))))))"

text \<open>The clamped cell coordinates of a corner of a box, as \<open>addElement\<close> computes them
  for \<open>int_min\<close> and for \<open>int_max\<close>.\<close>

definition cell_of :: "HashGrid \<Rightarrow> vec \<Rightarrow> error + ivec" where
  "cell_of g p =
     bind_r (cwise (-) p (m_domainMin g)) (\<lambda>d.
       (let c = map (\<lambda>t. cast_int (t / m_cellSize g)) d in
        if \<not> list_all (\<lambda>v. v \<ge> -1) c then Inl AssertionFailed
        else if length c \<noteq> length (m_gridSize g) then Inl SizeMismatch
        else if \<not> list_all2 (\<le>) c (m_gridSize g) then Inl AssertionFailed
        else cwise min (map (\<lambda>v. max v 0) c) (map (\<lambda>n. n - 1) (m_gridSize g))))"

text \<open>\<open>items.emplace_back(hash(x, y, z), id, aabb)\<close>: the constructor of HashItem narrows
  the \<open>long\<close> hash to the \<open>int\<close> key.\<close>

definition emplace_cell ::
  "HashGrid \<Rightarrow> AABB \<Rightarrow> int \<Rightarrow> int \<Rightarrow> int \<Rightarrow> int \<Rightarrow> HashItem list
     \<Rightarrow> error + HashItem list" where
  "emplace_cell g box ident x y z items =
     bind_r (hash g x y z) (\<lambda>k.
       Inr (items @ [\<lparr>key = wrap32 k, item_id = ident, aabb = box\<rparr>]))"

text \<open>\<open>HashGrid::addElement(aabb, id, items)\<close>: one item per covered cell.\<close>

definition addElement ::
  "HashGrid \<Rightarrow> AABB \<Rightarrow> int \<Rightarrow> HashItem list \<Rightarrow> error + HashItem list" where
  "addElement g box ident items =
     bind_r (cell_of g (aabb_min box)) (\<lambda>int_min.
     bind_r (cell_of g (aabb_max box)) (\<lambda>int_max.
       if length int_min \<noteq> length int_max then Inl SizeMismatch
       else if \<not> list_all2 (\<le>) int_min int_max then Inl AssertionFailed
       else
         bind_r (if length int_min = 3 then coeff int_min 2 else Inr 0) (\<lambda>min_z.
         bind_r (if length int_max = 3 then coeff int_max 2 else Inr 0) (\<lambda>max_z.
         bind_r (coeff int_min 0) (\<lambda>min_x.
         bind_r (coeff int_max 0) (\<lambda>max_x.
         bind_r (coeff int_min 1) (\<lambda>min_y.
         bind_r (coeff int_max 1) (\<lambda>max_y.
           for_each [min_x..max_x] (\<lambda>x.
             for_each [min_y..max_y] (\<lambda>y.
               for_each [min_z..max_z] (\<lambda>z. emplace_cell g box ident x y z)))
             items))))))))"

text \<open>\<open>array - r\<close> and \<open>array + r\<close> with a scalar.\<close>

definition inflate_lo :: "vec \<Rightarrow> real \<Rightarrow> vec" where
  "inflate_lo v r = map (\<lambda>c. c - r) v"

definition inflate_hi :: "vec \<Rightarrow> real \<Rightarrow> vec" where
  "inflate_hi v r = map (\<lambda>c. c + r) v"

text \<open>The protected \<open>addVertex\<close>, \<open>addEdge\<close> and \<open>addFace\<close>, which append to a given
  item vector; the \<open>long\<close> index is narrowed to the \<open>int\<close> id of \<open>addElement\<close>.\<close>

definition addVertex ::
  "HashGrid \<Rightarrow> vec \<Rightarrow> vec \<Rightarrow> int \<Rightarrow> HashItem list \<Rightarrow> real \<Rightarrow> error + HashItem list" where
  "addVertex g vertex_t0 vertex_t1 index vertex_items inflation_radius =
     bind_r (cwise min vertex_t0 vertex_t1) (\<lambda>lower_bound.
     bind_r (cwise max vertex_t0 vertex_t1) (\<lambda>upper_bound.
     bind_r (mk_AABB (inflate_lo lower_bound inflation_radius)
                     (inflate_hi upper_bound inflation_radius)) (\<lambda>box.
       addElement g box (wrap32 index) vertex_items)))"

definition addEdge ::
  "HashGrid \<Rightarrow> vec \<Rightarrow> vec \<Rightarrow> vec \<Rightarrow> vec \<Rightarrow> int \<Rightarrow> HashItem list \<Rightarrow> real
     \<Rightarrow> error + HashItem list" where
  "addEdge g edge_vertex0_t0 edge_vertex1_t0 edge_vertex0_t1 edge_vertex1_t1 index
       edge_items inflation_radius =
     bind_r (bind_r (bind_r (cwise min edge_vertex0_t0 edge_vertex1_t0)
                       (\<lambda>m. cwise min m edge_vertex0_t1))
               (\<lambda>m. cwise min m edge_vertex1_t1)) (\<lambda>lower_bound.
     bind_r (bind_r (bind_r (cwise max edge_vertex0_t0 edge_vertex1_t0)
                       (\<lambda>m. cwise max m edge_vertex0_t1))
               (\<lambda>m. cwise max m edge_vertex1_t1)) (\<lambda>upper_bound.
     bind_r (mk_AABB (inflate_lo lower_bound inflation_radius)
                     (inflate_hi upper_bound inflation_radius)) (\<lambda>box.
       addElement g box (wrap32 index) edge_items)))"

definition addFace ::
  "HashGrid \<Rightarrow> vec \<Rightarrow> vec \<Rightarrow> vec \<Rightarrow> vec \<Rightarrow> vec \<Rightarrow> vec \<Rightarrow> int \<Rightarrow> HashItem list \<Rightarrow> real
     \<Rightarrow> error + HashItem list" where
  "addFace g face_vertex0_t0 face_vertex1_t0 face_vertex2_t0
       face_vertex0_t1 face_vertex1_t1 face_vertex2_t1 index face_items inflation_radius =
     bind_r (bind_r (bind_r (bind_r (bind_r (cwise min face_vertex0_t0 face_vertex1_t0)
                       (\<lambda>m. cwise min m face_vertex2_t0))
               (\<lambda>m. cwise min m face_vertex0_t1))
               (\<lambda>m. cwise min m face_vertex1_t1))
               (\<lambda>m. cwise min m face_vertex2_t1)) (\<lambda>lower_bound.
     bind_r (bind_r (bind_r (bind_r (bind_r (cwise max face_vertex0_t0 face_vertex1_t0)
                       (\<lambda>m. cwise max m face_vertex2_t0))
               (\<lambda>m. cwise max m face_vertex0_t1))
               (\<lambda>m. cwise max m face_vertex1_t1))
               (\<lambda>m. cwise max m face_vertex2_t1)) (\<lambda>upper_bound.
     bind_r (mk_AABB (inflate_lo lower_bound inflation_radius)
                     (inflate_hi upper_bound inflation_radius)) (\<lambda>box.
       addElement g box (wrap32 index) face_items)))"

text \<open>\<open>merge_local_items\<close> with the single buffer of the serial run.\<close>

definition merge_local_items :: "HashItem list \<Rightarrow> HashItem list \<Rightarrow> HashItem list" where
  "merge_local_items local_items items = items @ local_items"

text \<open>\<open>vertices.row(edges(i, j))\<close>.\<close>

definition row_of :: "rmat \<Rightarrow> imat \<Rightarrow> int \<Rightarrow> int \<Rightarrow> error + vec" where
  "row_of vertices elems i j = bind_r (mat_at elems i j) (at_i vertices)"

definition addVertices :: "HashGrid \<Rightarrow> rmat \<Rightarrow> rmat \<Rightarrow> real \<Rightarrow> error + HashGrid" where
  "addVertices g vertices_t0 vertices_t1 inflation_radius =
     (if rows vertices_t0 \<noteq> rows vertices_t1 then Inl AssertionFailed
      else
        bind_r
          (for_each [0..int (rows vertices_t0) - 1] (\<lambda>i local_items.
             bind_r (at_i vertices_t0 i) (\<lambda>p0.
             bind_r (at_i vertices_t1 i) (\<lambda>p1.
               addVertex g p0 p1 i local_items inflation_radius))) [])
          (\<lambda>storage.
             Inr (g\<lparr>m_vertexItems := merge_local_items storage (m_vertexItems g)\<rparr>)))"

definition addEdges :: "HashGrid \<Rightarrow> rmat \<Rightarrow> rmat \<Rightarrow> imat \<Rightarrow> real \<Rightarrow> error + HashGrid" where
  "addEdges g vertices_t0 vertices_t1 edges inflation_radius =
     (if rows vertices_t0 \<noteq> rows vertices_t1 then Inl AssertionFailed
      else
        bind_r
          (for_each [0..int (rows edges) - 1] (\<lambda>i local_items.
             bind_r (row_of vertices_t0 edges i 0) (\<lambda>a0.
             bind_r (row_of vertices_t0 edges i 1) (\<lambda>b0.
             bind_r (row_of vertices_t1 edges i 0) (\<lambda>a1.
             bind_r (row_of vertices_t1 edges i 1) (\<lambda>b1.
               addEdge g a0 b0 a1 b1 i local_items inflation_radius))))) [])
          (\<lambda>storage.
             Inr (g\<lparr>m_edgeItems := merge_local_items storage (m_edgeItems g)\<rparr>)))"

definition addFaces :: "HashGrid \<Rightarrow> rmat \<Rightarrow> rmat \<Rightarrow> imat \<Rightarrow> real \<Rightarrow> error + HashGrid" where
  "addFaces g vertices_t0 vertices_t1 faces inflation_radius =
     (if rows vertices_t0 \<noteq> rows vertices_t1 then Inl AssertionFailed
      else
        bind_r
          (for_each [0..int (rows faces) - 1] (\<lambda>i local_items.
             bind_r (row_of vertices_t0 faces i 0) (\<lambda>a0.
             bind_r (row_of vertices_t0 faces i 1) (\<lambda>b0.
             bind_r (row_of vertices_t0 faces i 2) (\<lambda>c0.
             bind_r (row_of vertices_t1 faces i 0) (\<lambda>a1.
             bind_r (row_of vertices_t1 faces i 1) (\<lambda>b1.
             bind_r (row_of vertices_t1 faces i 2) (\<lambda>c1.
               addFace g a0 b0 c0 a1 b1 c1 i local_items inflation_radius))))))) [])
          (\<lambda>storage.
             Inr (g\<lparr>m_faceItems := merge_local_items storage (m_faceItems g)\<rparr>)))"

text \<open>The first, serial loop of \<open>addVerticesFromEdges\<close>: column by column, the entry of
  every vertex met in row \<open>ei\<close> is lowered to \<open>ei\<close>. A negative \<open>edges(ei, ej)\<close> becomes a
  huge \<open>size_t\<close>, outside the vector like any index beyond its size.\<close>

definition min_edge_pass :: "imat \<Rightarrow> nat list \<Rightarrow> error + nat list" where
  "min_edge_pass edges vertex_to_min_edge =
     for_each [0..<cols edges] (\<lambda>ej.
       for_each [0..<rows edges] (\<lambda>ei vtme.
         bind_r (mat_at edges (int ei) (int ej)) (\<lambda>vi.
         bind_r (at_i vtme vi) (\<lambda>cur.
           Inr (vtme[nat vi := min cur ei])))))
       vertex_to_min_edge"

text \<open>The second loop of \<open>addVerticesFromEdges\<close>, row by row, with the call made for a
  selected vertex as the parameter \<open>visit\<close>.\<close>

definition min_edge_visit ::
  "imat \<Rightarrow> nat list \<Rightarrow> (int \<Rightarrow> 's \<Rightarrow> error + 's) \<Rightarrow> 's \<Rightarrow> error + 's" where
  "min_edge_visit edges vertex_to_min_edge visit s =
     for_each [0..<rows edges] (\<lambda>ei.
       for_each [0..<cols edges] (\<lambda>ej local_items.
         bind_r (mat_at edges (int ei) (int ej)) (\<lambda>vi.
         bind_r (at_i vertex_to_min_edge vi) (\<lambda>m.
           if m = ei then visit vi local_items else Inr local_items))))
       s"

definition addVerticesFromEdges ::
  "HashGrid \<Rightarrow> rmat \<Rightarrow> rmat \<Rightarrow> imat \<Rightarrow> real \<Rightarrow> error + HashGrid" where
  "addVerticesFromEdges g vertices_t0 vertices_t1 edges inflation_radius =
     (if rows vertices_t0 \<noteq> rows vertices_t1 then Inl AssertionFailed
      else
        bind_r (min_edge_pass edges (replicate (rows vertices_t0) (rows edges + 1)))
          (\<lambda>vertex_to_min_edge.
        bind_r
          (min_edge_visit edges vertex_to_min_edge (\<lambda>vi local_items.
             bind_r (at_i vertices_t0 vi) (\<lambda>p0.
             bind_r (at_i vertices_t1 vi) (\<lambda>p1.
               addVertex g p0 p1 vi local_items inflation_radius))) [])
          (\<lambda>storage.
             Inr (g\<lparr>m_vertexItems := merge_local_items storage (m_vertexItems g)\<rparr>))))"

subsection \<open>The four queries\<close>

text \<open>\<open>group_ids(v)\<close> for a vertex index that is itself read from a matrix.\<close>

definition group_of :: "int list \<Rightarrow> error + int \<Rightarrow> error + int" where
  "group_of group_ids v = bind_r v (at_i group_ids)"

text \<open>The two lambdas of \<open>getVertexEdgePairs\<close>.\<close>

definition ev_is_endpoint :: "imat \<Rightarrow> pair_pred" where
  "ev_is_endpoint edges ei vi =
     or_else (eq_r (mat_at edges ei 0) (Inr vi)) (eq_r (mat_at edges ei 1) (Inr vi))"

definition ev_is_same_group :: "imat \<Rightarrow> int list \<Rightarrow> pair_pred" where
  "ev_is_same_group edges group_ids ei vi =
     and_also (Inr (length group_ids > 0))
       (or_else
          (eq_r (group_of group_ids (Inr vi)) (group_of group_ids (mat_at edges ei 0)))
          (eq_r (group_of group_ids (Inr vi)) (group_of group_ids (mat_at edges ei 1))))"

definition getVertexEdgePairs ::
  "HashGrid \<Rightarrow> imat \<Rightarrow> int list \<Rightarrow> candidate list \<Rightarrow> error + (HashGrid \<times> candidate list)" where
  "getVertexEdgePairs g edges group_ids ev_candidates =
     bind_r (getPairs (ev_is_endpoint edges) (ev_is_same_group edges group_ids)
               (m_edgeItems g) (m_vertexItems g) ev_candidates)
       (\<lambda>(items0, items1, candidates).
          Inr (g\<lparr>m_edgeItems := items0, m_vertexItems := items1\<rparr>, candidates))"

text \<open>The two lambdas of \<open>getEdgeEdgePairs\<close>.\<close>

definition ee_is_endpoint :: "imat \<Rightarrow> pair_pred" where
  "ee_is_endpoint edges ei ej =
     or_else
       (or_else
          (or_else (eq_r (mat_at edges ei 0) (mat_at edges ej 0))
                   (eq_r (mat_at edges ei 0) (mat_at edges ej 1)))
          (eq_r (mat_at edges ei 1) (mat_at edges ej 0)))
       (eq_r (mat_at edges ei 1) (mat_at edges ej 1))"

definition ee_is_same_group :: "imat \<Rightarrow> int list \<Rightarrow> pair_pred" where
  "ee_is_same_group edges group_ids ei ej =
     and_also (Inr (length group_ids > 0))
       (or_else
          (or_else
             (or_else
                (eq_r (group_of group_ids (mat_at edges ei 0))
                      (group_of group_ids (mat_at edges ej 0)))
                (eq_r (group_of group_ids (mat_at edges ei 0))
                      (group_of group_ids (mat_at edges ej 1))))
             (eq_r (group_of group_ids (mat_at edges ei 1))
                   (group_of group_ids (mat_at edges ej 0))))
          (eq_r (group_of group_ids (mat_at edges ei 1))
                (group_of group_ids (mat_at edges ej 1))))"

definition getEdgeEdgePairs ::
  "HashGrid \<Rightarrow> imat \<Rightarrow> int list \<Rightarrow> candidate list \<Rightarrow> error + (HashGrid \<times> candidate list)" where
  "getEdgeEdgePairs g edges group_ids ee_candidates =
     bind_r (getPairs_self (ee_is_endpoint edges) (ee_is_same_group edges group_ids)
               (m_edgeItems g) ee_candidates)
       (\<lambda>(items, candidates). Inr (g\<lparr>m_edgeItems := items\<rparr>, candidates))"

text \<open>The two lambdas of \<open>getEdgeFacePairs\<close>.\<close>

definition ef_is_endpoint :: "imat \<Rightarrow> imat \<Rightarrow> pair_pred" where
  "ef_is_endpoint edges faces ei fi =
     or_else
       (or_else
          (or_else
             (or_else
                (or_else (eq_r (mat_at edges ei 0) (mat_at faces fi 0))
                         (eq_r (mat_at edges ei 0) (mat_at faces fi 1)))
                (eq_r (mat_at edges ei 0) (mat_at faces fi 2)))
             (eq_r (mat_at edges ei 1) (mat_at faces fi 0)))
          (eq_r (mat_at edges ei 1) (mat_at faces fi 1)))
       (eq_r (mat_at edges ei 1) (mat_at faces fi 2))"

definition ef_is_same_group :: "imat \<Rightarrow> imat \<Rightarrow> int list \<Rightarrow> pair_pred" where
  "ef_is_same_group edges faces group_ids ei fi =
     and_also (Inr (length group_ids > 0))
       (or_else
          (or_else
             (or_else
                (or_else
                   (or_else
                      (eq_r (group_of group_ids (mat_at edges ei 0))
                            (group_of group_ids (mat_at faces fi 0)))
                      (eq_r (group_of group_ids (mat_at edges ei 0))
                            (group_of group_ids (mat_at faces fi 1))))
                   (eq_r (group_of group_ids (mat_at edges ei 0))
                         (group_of group_ids (mat_at faces fi 2))))
                (eq_r (group_of group_ids (mat_at edges ei 1))
                      (group_of group_ids (mat_at faces fi 0))))
             (eq_r (group_of group_ids (mat_at edges ei 1))
                   (group_of group_ids (mat_at faces fi 1))))
          (eq_r (group_of group_ids (mat_at edges ei 1))
                (group_of group_ids (mat_at faces fi 2))))"

definition getEdgeFacePairs ::
  "HashGrid \<Rightarrow> imat \<Rightarrow> imat \<Rightarrow> int list \<Rightarrow> candidate list
     \<Rightarrow> error + (HashGrid \<times> candidate list)" where
  "getEdgeFacePairs g edges faces group_ids ef_candidates =
     bind_r (getPairs (ef_is_endpoint edges faces) (ef_is_same_group edges faces group_ids)
               (m_edgeItems g) (m_faceItems g) ef_candidates)
       (\<lambda>(items0, items1, candidates).
          Inr (g\<lparr>m_edgeItems := items0, m_faceItems := items1\<rparr>, candidates))"

text \<open>The two lambdas of \<open>getFaceVertexPairs\<close>.\<close>

definition fv_is_endpoint :: "imat \<Rightarrow> pair_pred" where
  "fv_is_endpoint faces fi vi =
     or_else
       (or_else (eq_r (Inr vi) (mat_at faces fi 0)) (eq_r (Inr vi) (mat_at faces fi 1)))
       (eq_r (Inr vi) (mat_at faces fi 2))"

definition fv_is_same_group :: "imat \<Rightarrow> int list \<Rightarrow> pair_pred" where
  "fv_is_same_group faces group_ids fi vi =
     and_also (Inr (length group_ids > 0))
       (or_else
          (or_else
             (eq_r (group_of group_ids (Inr vi)) (group_of group_ids (mat_at faces fi 0)))
             (eq_r (group_of group_ids (Inr vi)) (group_of group_ids (mat_at faces fi 1))))
          (eq_r (group_of group_ids (Inr vi)) (group_of group_ids (mat_at faces fi 2))))"

definition getFaceVertexPairs ::
  "HashGrid \<Rightarrow> imat \<Rightarrow> int list \<Rightarrow> candidate list \<Rightarrow> error + (HashGrid \<times> candidate list)" where
  "getFaceVertexPairs g faces group_ids fv_candidates =
     bind_r (getPairs (fv_is_endpoint faces) (fv_is_same_group faces group_ids)
               (m_faceItems g) (m_vertexItems g) fv_candidates)
       (\<lambda>(items0, items1, candidates).
          Inr (g\<lparr>m_faceItems := items0, m_vertexItems := items1\<rparr>, candidates))"

subsection \<open>Specification predicates and example inputs\<close>

text \<open>A pair of ids that some item of the first bucket and some item of the second, lying
  in the same cell, pass the filters and the overlap test with.\<close>

definition emitted :: "pair_pred \<Rightarrow> pair_pred \<Rightarrow> HashItem list \<Rightarrow> HashItem list \<Rightarrow> candidate \<Rightarrow> bool" where
  "emitted ep sg items0 items1 p \<longleftrightarrow>
     (\<exists>h0 \<in> set items0. \<exists>h1 \<in> set items1. p = (item_id h0, item_id h1) \<and>
        key h0 = key h1 \<and> passes ep sg h0 h1 = Inr True)"

text \<open>The decoding of a key that the specification gives for the cell hash:
  \<open>x = k mod Gx\<close>, \<open>y = (k / Gx) mod Gy\<close>, \<open>z = k / (Gx * Gy)\<close>.\<close>

definition decode :: "int \<Rightarrow> int \<Rightarrow> int \<Rightarrow> int \<times> int \<times> int" where
  "decode Gx Gy k = (k mod Gx, (k div Gx) mod Gy, k div (Gx * Gy))"

text \<open>A cell coordinate inside a grid of two or three axes (\<open>z = 0\<close> in 2D), and the number
  of cells of the grid.\<close>

definition cell_in_grid :: "ivec \<Rightarrow> int \<Rightarrow> int \<Rightarrow> int \<Rightarrow> bool" where
  "cell_in_grid G x y z \<longleftrightarrow>
     (length G = 2 \<or> length G = 3) \<and> 0 \<le> x \<and> x < G ! 0 \<and> 0 \<le> y \<and> y < G ! 1 \<and>
     0 \<le> z \<and> z < (if length G = 3 then G ! 2 else 1)"

definition cell_count :: "ivec \<Rightarrow> int" where
  "cell_count G = G ! 0 * G ! 1 * (if length G = 3 then G ! 2 else 1)"

text \<open>The key stored for every cell of the grid is the exact value of
  \<open>(z * Gy + y) * Gx + x\<close>.\<close>

definition keys_exact :: "HashGrid \<Rightarrow> bool" where
  "keys_exact g \<longleftrightarrow>
     (\<forall>x y z box ident. cell_in_grid (m_gridSize g) x y z \<longrightarrow>
        emplace_cell g box ident x y z [] =
          Inr [\<lparr>key = (z * m_gridSize g ! 1 + y) * m_gridSize g ! 0 + x,
                 item_id = ident, aabb = box\<rparr>])"

text \<open>The body of the first loop of \<open>addVerticesFromEdges\<close> at one position of the edge
  matrix, and (below) the body of the second.\<close>

definition lower_step :: "imat \<Rightarrow> nat \<times> nat \<Rightarrow> nat list \<Rightarrow> error + nat list" where
  "lower_step edges = (\<lambda>(ej, ei) vtme.
         bind_r (mat_at edges (int ei) (int ej)) (\<lambda>vi.
         bind_r (at_i vtme vi) (\<lambda>cur.
           Inr (vtme[nat vi := min cur ei]))))"

text \<open>A position of the edge matrix that holds a vertex index below n.\<close>

definition in_range :: "imat \<Rightarrow> nat \<Rightarrow> nat \<times> nat \<Rightarrow> bool" where
  "in_range edges n = (\<lambda>(ej, ei). ei < length edges \<and> ej < length (edges ! ei) \<and>
      0 \<le> edges ! ei ! ej \<and> edges ! ei ! ej < int n)"

text \<open>Edge matrices whose rows have one length and hold distinct vertex indices below n.\<close>

definition wf_edges :: "nat \<Rightarrow> imat \<Rightarrow> bool" where
  "wf_edges n edges \<longleftrightarrow>
     list_all (\<lambda>row. length row = cols edges \<and> distinct row \<and>
                 list_all (\<lambda>v. 0 \<le> v \<and> v < int n) row) edges"

definition visit_step ::
  "imat \<Rightarrow> nat list \<Rightarrow> (int \<Rightarrow> 's \<Rightarrow> error + 's) \<Rightarrow> nat \<times> nat \<Rightarrow> 's \<Rightarrow> error + 's" where
  "visit_step edges vtme visit = (\<lambda>(ei, ej) local_items.
         bind_r (mat_at edges (int ei) (int ej)) (\<lambda>vi.
         bind_r (at_i vtme vi) (\<lambda>m.
           if m = ei then visit vi local_items else Inr local_items)))"

text \<open>The vertices for which the second loop makes its call, in the order of the calls.\<close>

definition selected :: "imat \<Rightarrow> nat list \<Rightarrow> int list" where
  "selected edges vtme =
     map (\<lambda>(ei, ej). edges ! ei ! ej)
       (filter (\<lambda>(ei, ej). vtme ! nat (edges ! ei ! ej) = ei)
          (List.product [0..<rows edges] [0..<cols edges]))"

text \<open>A default-constructed grid: empty arrays and buckets; the cell size is indeterminate
  until \<open>resize\<close> sets it (0 here).\<close>

definition new_grid :: HashGrid where
  "new_grid = \<lparr>m_cellSize = 0, m_gridSize = [], m_domainMin = [], m_domainMax = [],
                m_vertexItems = [], m_edgeItems = [], m_faceItems = []\<rparr>"

text \<open>A small 3D mesh on a grid of 2 x 2 x 2 unit cells: a triangle (vertices 0, 1, 2) with its
  three edges, an edge (vertices 3, 4) that pierces it and an edge (vertices 5, 6) that lies
  across it; nothing moves. Every query has candidates on it.\<close>

definition ex3_V :: rmat where
  "ex3_V = [[0, 0, 1/2], [1, 0, 1/2], [0, 1, 1/2], [1/4, 1/4, 1/4], [1/4, 1/4, 3/4],
            [0, 1/4, 1/2], [1, 1/4, 1/2]]"

definition ex3_E :: imat where
  "ex3_E = [[3, 4], [0, 1], [1, 2], [2, 0], [5, 6]]"

definition ex3_F :: imat where
  "ex3_F = [[0, 1, 2]]"

definition ex3_groups :: "int list" where
  "ex3_groups = [0, 0, 0, 1, 1, 2, 2]"

definition ex3_populated :: "error + HashGrid" where
  "ex3_populated =
     bind_r (resize new_grid [0, 0, 0] [2, 2, 2] 1) (\<lambda>g.
     bind_r (addVertices g ex3_V ex3_V 0) (\<lambda>g.
     bind_r (addEdges g ex3_V ex3_V ex3_E 0) (\<lambda>g.
       addFaces g ex3_V ex3_V ex3_F 0)))"

definition ex3_grid :: HashGrid where
  "ex3_grid = projr ex3_populated"

text \<open>A 2D grid of 65536 x 65536 unit cells, and one of 65536 x 32768 (2 ^ 31 cells).\<close>

definition big_grid :: HashGrid where
  "big_grid = projr (resize new_grid [0, 0] [65536, 65536] 1)"

definition grid_2_31 :: HashGrid where
  "grid_2_31 = projr (resize new_grid [0, 0] [65536, 32768] 1)"

text \<open>A box that covers four cells of the example grid.\<close>

definition ex_box :: AABB where
  "ex_box = projr (mk_AABB [1/2, 1/2, 1/2] [3/2, 1/2, 3/2])"

text \<open>A 2D grid of one unit cell, the empty grid of the 3D example, and the single item of a
  vertex that rests at (1/2, 1/2).\<close>

definition unit_grid :: HashGrid where
  "unit_grid = projr (resize new_grid [0, 0] [1, 1] 1)"

definition ex3_empty :: HashGrid where
  "ex3_empty = projr (resize new_grid [0, 0, 0] [2, 2, 2] 1)"

definition point_item :: HashItem where
  "point_item = \<lparr>key = 0, item_id = 0,
      aabb = \<lparr>aabb_min = [1/2, 1/2], aabb_max = [1/2, 1/2], half_extent = [0, 0],
               center = [1/2, 1/2]\<rparr>\<rparr>"

text \<open>A 2D mesh on a grid of 3 x 1 cells of size 10: the edge 0 joins the vertices 1 and 2,
  the vertex 0 lies next to it; nothing moves. It is populated by \<open>addVertices\<close> and
  \<open>addEdges\<close> with one inflation radius.\<close>

definition ex2_V :: rmat where
  "ex2_V = [[11, 5], [13, 5], [14, 5]]"

definition ex2_E :: imat where
  "ex2_E = [[1, 2]]"

definition ex2_populated :: "real \<Rightarrow> error + HashGrid" where
  "ex2_populated r =
     bind_r (resize new_grid [0, 0] [30, 10] 10) (\<lambda>g.
     bind_r (addVertices g ex2_V ex2_V r) (\<lambda>g.
       addEdges g ex2_V ex2_V ex2_E r))"

definition ex2_grid :: "real \<Rightarrow> HashGrid" where
  "ex2_grid r = projr (ex2_populated r)"

section \<open>Properties\<close>

subsection \<open>Sequencing and the sort of the candidates\<close>

declare inner_scan.simps [simp del] outer_scan.simps [simp del]
  self_inner.simps [simp del] self_outer.simps [simp del]

lemma bind_r_Inr_iff: "bind_r m f = Inr y \<longleftrightarrow> (\<exists>v. m = Inr v \<and> f v = Inr y)"
  by (cases m) (simp_all add: bind_r_def)

lemma bind_r_simps [simp]: "bind_r (Inl e) f = Inl e" "bind_r (Inr v) f = f v"
  by (simp_all add: bind_r_def)

lemma distinct_remdups_adj_sorted:
  fixes xs :: "'a::linorder list"
  shows "sorted xs \<Longrightarrow> distinct (remdups_adj xs)"
proof (induction xs rule: remdups_adj.induct)
  case (3 x y xs)
  show ?case
  proof (cases "x = y")
    case True
    then show ?thesis using 3 by simp
  next
    case False
    have "x \<notin> set (y # xs)" using 3(3) False by auto
    then show ?thesis using 3 False by simp
  qed
qed simp_all

lemma sorted_sort_unique: "sorted (sort_unique c)"
  by (simp add: sort_unique_def)

lemma distinct_sort_unique: "distinct (sort_unique c)"
  by (simp add: sort_unique_def distinct_remdups_adj_sorted)

lemma set_sort_unique: "set (sort_unique c) = set c"
  by (simp add: sort_unique_def)

lemma sort_unique_cong: "set xs = set ys \<Longrightarrow> sort_unique xs = sort_unique ys"
  by (rule sorted_distinct_set_unique)
     (simp_all add: sorted_sort_unique distinct_sort_unique set_sort_unique)

lemma sort_unique_idem: "sort_unique (xs @ sort_unique ys) = sort_unique (xs @ ys)"
  by (rule sort_unique_cong) (simp add: set_sort_unique)

lemma inner_scan_prefix:
  "inner_scan ep sg item0 items1 j c =
     bind_r (inner_scan ep sg item0 items1 j []) (\<lambda>(j', n). Inr (j', c @ n))"
proof (induction "length items1 - j" arbitrary: j c)
  case 0
  then show ?case by (subst (1 2) inner_scan.simps) simp
next
  case (Suc k)
  then have lt: "j < length items1" and k: "k = length items1 - (j + 1)" by auto
  show ?case
  proof (cases "key item0 = key (items1 ! j)")
    case False
    then show ?thesis using lt by (subst (1 2) inner_scan.simps) simp
  next
    case True
    let ?p = "(item_id item0, item_id (items1 ! j))"
    show ?thesis
    proof (cases "passes ep sg item0 (items1 ! j)")
      case (Inl e)
      then show ?thesis using lt True by (subst (1 2) inner_scan.simps) simp
    next
      case (Inr emit)
      have a: "inner_scan ep sg item0 items1 (j + 1) (if emit then c @ [?p] else c) =
         bind_r (inner_scan ep sg item0 items1 (j + 1) [])
           (\<lambda>(j', n). Inr (j', (if emit then c @ [?p] else c) @ n))"
        by (rule Suc.hyps(1)[OF k])
      have b: "inner_scan ep sg item0 items1 (j + 1) (if emit then [?p] else []) =
         bind_r (inner_scan ep sg item0 items1 (j + 1) [])
           (\<lambda>(j', n). Inr (j', (if emit then [?p] else []) @ n))"
        by (rule Suc.hyps(1)[OF k])
      have l: "inner_scan ep sg item0 items1 j c =
          inner_scan ep sg item0 items1 (j + 1) (if emit then c @ [?p] else c)"
        using lt True Inr by (subst inner_scan.simps) simp
      have r: "inner_scan ep sg item0 items1 j [] =
          inner_scan ep sg item0 items1 (j + 1) (if emit then [?p] else [])"
        using lt True Inr by (subst inner_scan.simps) simp
      show ?thesis
        unfolding l r a b
        by (cases "inner_scan ep sg item0 items1 (j + 1) []") (auto split: prod.splits)
    qed
  qed
qed

lemma inner_scan_sound:
  "inner_scan ep sg item0 items1 j c = Inr (j', c') \<Longrightarrow> p \<in> set c' \<Longrightarrow>
   p \<in> set c \<or> (\<exists>h1 \<in> set items1. p = (item_id item0, item_id h1) \<and>
        key item0 = key h1 \<and> passes ep sg item0 h1 = Inr True)"
proof (induction ep sg item0 items1 j c arbitrary: j' c' rule: inner_scan.induct)
  case (1 ep sg item0 items1 j c)
  show ?case
  proof (cases "j < length items1 \<and> key item0 = key (items1 ! j)")
    case False
    then show ?thesis using "1.prems"
      by (subst (asm) inner_scan.simps) (auto simp: Let_def split: if_splits)
  next
    case True
    then obtain emit where e: "passes ep sg item0 (items1 ! j) = Inr emit"
      and r: "inner_scan ep sg item0 items1 (j + 1)
                (if emit then c @ [(item_id item0, item_id (items1 ! j))] else c) = Inr (j', c')"
      using "1.prems"(1) by (subst (asm) inner_scan.simps) (auto simp: Let_def bind_r_Inr_iff)
    have m: "items1 ! j \<in> set items1" using True by simp
    from "1.IH"[OF _ refl _ r "1.prems"(2)] True
    have "p \<in> set (if emit then c @ [(item_id item0, item_id (items1 ! j))] else c) \<or>
      (\<exists>h1 \<in> set items1. p = (item_id item0, item_id h1) \<and>
        key item0 = key h1 \<and> passes ep sg item0 h1 = Inr True)"
      by simp
    then show ?thesis using e m True by (auto split: if_splits)
  qed
qed

lemma outer_scan_prefix:
  "outer_scan ep sg items0 items1 i js c =
     bind_r (outer_scan ep sg items0 items1 i js []) (\<lambda>n. Inr (c @ n))"
proof (induction "length items0 - i" arbitrary: i js c)
  case 0
  then show ?case by (subst (1 2) outer_scan.simps) simp
next
  case (Suc k)
  then have lt: "i < length items0" and k: "k = length items0 - (i + 1)" by auto
  show ?case
  proof (cases "js < length items1")
    case False
    then show ?thesis by (subst (1 2) outer_scan.simps) simp
  next
    case True
    let ?in = "inner_scan ep sg (items0 ! i) items1 js"
    let ?js = "\<lambda>j. if i = length items0 - 1 \<or> key (items0 ! i) \<noteq> key (items0 ! (i + 1))
                 then j else js"
    have l: "outer_scan ep sg items0 items1 i js c =
       bind_r (?in c) (\<lambda>(j, c'). outer_scan ep sg items0 items1 (i + 1) (?js j) c')" for c
      using lt True by (subst outer_scan.simps) (simp add: Let_def)
    show ?thesis
    proof (cases "?in []")
      case (Inl e)
      then show ?thesis unfolding l by (subst inner_scan_prefix) simp
    next
      case (Inr jn)
      obtain j n where jn: "jn = (j, n)" by (cases jn)
      have c1: "?in c = Inr (j, c @ n)" using Inr jn by (subst inner_scan_prefix) simp
      have a: "outer_scan ep sg items0 items1 (i + 1) (?js j) (c @ n) =
         bind_r (outer_scan ep sg items0 items1 (i + 1) (?js j) []) (\<lambda>m. Inr ((c @ n) @ m))"
        by (rule Suc.hyps(1)[OF k])
      have b: "outer_scan ep sg items0 items1 (i + 1) (?js j) n =
         bind_r (outer_scan ep sg items0 items1 (i + 1) (?js j) []) (\<lambda>m. Inr (n @ m))"
        by (rule Suc.hyps(1)[OF k])
      show ?thesis
        unfolding l c1 using Inr jn a b
        by (cases "outer_scan ep sg items0 items1 (i + 1) (?js j) []") auto
    qed
  qed
qed

lemma outer_scan_sound:
  "outer_scan ep sg items0 items1 i js c = Inr c' \<Longrightarrow> p \<in> set c' \<Longrightarrow>
   p \<in> set c \<or> emitted ep sg items0 items1 p"
proof (induction ep sg items0 items1 i js c rule: outer_scan.induct)
  case (1 ep sg items0 items1 i js c)
  show ?case
  proof (cases "i < length items0 \<and> js < length items1")
    case False
    then show ?thesis using "1.prems"
      by (subst (asm) outer_scan.simps) (auto split: if_splits)
  next
    case True
    then obtain j c1 where
      e: "inner_scan ep sg (items0 ! i) items1 js c = Inr (j, c1)"
      and r: "outer_scan ep sg items0 items1 (i + 1)
                (if i = length items0 - 1 \<or> key (items0 ! i) \<noteq> key (items0 ! (i + 1))
                 then j else js) c1 = Inr c'"
      using "1.prems"(1) by (subst (asm) outer_scan.simps) (auto simp: Let_def bind_r_Inr_iff)
    have m: "items0 ! i \<in> set items0" using True by simp
    from "1.IH"[OF True refl r "1.prems"(2)]
    have "p \<in> set c1 \<or> emitted ep sg items0 items1 p" by simp
    then show ?thesis
      using inner_scan_sound[OF e, of p] m unfolding emitted_def by blast
  qed
qed


lemma self_inner_prefix:
  "self_inner ep sg item0 items j c =
     bind_r (self_inner ep sg item0 items j []) (\<lambda>n. Inr (c @ n))"
proof (induction "length items - j" arbitrary: j c)
  case 0
  then show ?case by (subst (1 2) self_inner.simps) simp
next
  case (Suc k)
  then have lt: "j < length items" and k: "k = length items - (j + 1)" by auto
  show ?case
  proof (cases "key item0 = key (items ! j)")
    case False
    then show ?thesis using lt by (subst (1 2) self_inner.simps) simp
  next
    case True
    let ?p = "(item_id item0, item_id (items ! j))"
    show ?thesis
    proof (cases "passes ep sg item0 (items ! j)")
      case (Inl e)
      then show ?thesis using lt True by (subst (1 2) self_inner.simps) simp
    next
      case (Inr emit)
      have a: "self_inner ep sg item0 items (j + 1) (if emit then c @ [?p] else c) =
         bind_r (self_inner ep sg item0 items (j + 1) [])
           (\<lambda>n. Inr ((if emit then c @ [?p] else c) @ n))"
        by (rule Suc.hyps(1)[OF k])
      have b: "self_inner ep sg item0 items (j + 1) (if emit then [?p] else []) =
         bind_r (self_inner ep sg item0 items (j + 1) [])
           (\<lambda>n. Inr ((if emit then [?p] else []) @ n))"
        by (rule Suc.hyps(1)[OF k])
      have l: "self_inner ep sg item0 items j c =
          self_inner ep sg item0 items (j + 1) (if emit then c @ [?p] else c)"
        using lt True Inr by (subst self_inner.simps) simp
      have r: "self_inner ep sg item0 items j [] =
          self_inner ep sg item0 items (j + 1) (if emit then [?p] else [])"
        using lt True Inr by (subst self_inner.simps) simp
      show ?thesis
        unfolding l r a b
        by (cases "self_inner ep sg item0 items (j + 1) []") auto
    qed
  qed
qed

lemma self_inner_sound:
  "self_inner ep sg item0 items j c = Inr c' \<Longrightarrow> p \<in> set c' \<Longrightarrow>
   p \<in> set c \<or> (\<exists>h1 \<in> set items. p = (item_id item0, item_id h1) \<and>
        key item0 = key h1 \<and> passes ep sg item0 h1 = Inr True)"
proof (induction ep sg item0 items j c arbitrary: c' rule: self_inner.induct)
  case (1 ep sg item0 items j c)
  show ?case
  proof (cases "j < length items \<and> key item0 = key (items ! j)")
    case False
    then show ?thesis using "1.prems"
      by (subst (asm) self_inner.simps) (auto simp: Let_def split: if_splits)
  next
    case True
    then obtain emit where e: "passes ep sg item0 (items ! j) = Inr emit"
      and r: "self_inner ep sg item0 items (j + 1)
                (if emit then c @ [(item_id item0, item_id (items ! j))] else c) = Inr c'"
      using "1.prems"(1) by (subst (asm) self_inner.simps) (auto simp: Let_def bind_r_Inr_iff)
    have m: "items ! j \<in> set items" using True by simp
    from "1.IH"[OF _ refl _ r "1.prems"(2)] True
    have "p \<in> set (if emit then c @ [(item_id item0, item_id (items ! j))] else c) \<or>
      (\<exists>h1 \<in> set items. p = (item_id item0, item_id h1) \<and>
        key item0 = key h1 \<and> passes ep sg item0 h1 = Inr True)"
      by simp
    then show ?thesis using e m True by (auto split: if_splits)
  qed
qed

lemma self_outer_prefix:
  "self_outer ep sg items i c =
     bind_r (self_outer ep sg items i []) (\<lambda>n. Inr (c @ n))"
proof (induction "length items - i" arbitrary: i c)
  case 0
  then show ?case by (subst (1 2) self_outer.simps) simp
next
  case (Suc k)
  then have lt: "i < length items" and k: "k = length items - (i + 1)" by auto
  let ?in = "self_inner ep sg (items ! i) items (i + 1)"
  have l: "self_outer ep sg items i c = bind_r (?in c) (self_outer ep sg items (i + 1))" for c
    using lt by (subst self_outer.simps) simp
  show ?case
  proof (cases "?in []")
    case (Inl e)
    then show ?thesis unfolding l by (subst self_inner_prefix) simp
  next
    case (Inr n)
    have c1: "?in c = Inr (c @ n)" using Inr by (subst self_inner_prefix) simp
    have a: "self_outer ep sg items (i + 1) (c @ n) =
       bind_r (self_outer ep sg items (i + 1) []) (\<lambda>m. Inr ((c @ n) @ m))"
      by (rule Suc.hyps(1)[OF k])
    have b: "self_outer ep sg items (i + 1) n =
       bind_r (self_outer ep sg items (i + 1) []) (\<lambda>m. Inr (n @ m))"
      by (rule Suc.hyps(1)[OF k])
    show ?thesis
      unfolding l c1 using Inr a b
      by (cases "self_outer ep sg items (i + 1) []") auto
  qed
qed

lemma self_outer_sound:
  "self_outer ep sg items i c = Inr c' \<Longrightarrow> p \<in> set c' \<Longrightarrow>
   p \<in> set c \<or> emitted ep sg items items p"
proof (induction ep sg items i c rule: self_outer.induct)
  case (1 ep sg items i c)
  show ?case
  proof (cases "i < length items")
    case False
    then show ?thesis using "1.prems"
      by (subst (asm) self_outer.simps) (auto split: if_splits)
  next
    case True
    then obtain c1 where
      e: "self_inner ep sg (items ! i) items (i + 1) c = Inr c1"
      and r: "self_outer ep sg items (i + 1) c1 = Inr c'"
      using "1.prems"(1) by (subst (asm) self_outer.simps) (auto simp: bind_r_Inr_iff)
    have m: "items ! i \<in> set items" using True by simp
    from "1.IH"[OF True r "1.prems"(2)]
    have "p \<in> set c1 \<or> emitted ep sg items items p" by simp
    then show ?thesis
      using self_inner_sound[OF e, of p] m unfolding emitted_def by blast
  qed
qed

lemma set_sort_items: "set (sort_items xs) = set xs"
  by (simp add: sort_items_def)

text \<open>The order of \<open>sort_items\<close> is the one of \<open>HashItem::operator<\<close>.\<close>

lemma item_less_lex: "item_less a b \<longleftrightarrow> (key a, item_id a) < (key b, item_id b)"
  by (auto simp: item_less_def less_prod_def)

lemma sorted_sort_items: "sorted_wrt (\<lambda>a b. \<not> item_less b a) (sort_items xs)"
proof -
  have "sorted (map (\<lambda>h. (key h, item_id h)) (sort_items xs))"
    unfolding sort_items_def by (rule sorted_sort_key)
  then have "sorted_wrt (\<lambda>a b. (key a, item_id a) \<le> (key b, item_id b)) (sort_items xs)"
    by (simp add: sorted_map)
  then show ?thesis
    by (rule sorted_wrt_mono_rel[rotated]) (auto simp: item_less_def)
qed

lemma emitted_sort_items:
  "emitted ep sg (sort_items xs) (sort_items ys) p = emitted ep sg xs ys p"
  by (simp add: emitted_def set_sort_items)

lemma passes_True:
  "passes ep sg h0 h1 = Inr True \<Longrightarrow>
     ep (item_id h0) (item_id h1) = Inr False \<and> sg (item_id h0) (item_id h1) = Inr False \<and>
     are_overlapping (aabb h0) (aabb h1) = Inr True"
  by (auto simp: passes_def and_also_def bind_r_Inr_iff split: if_splits)

lemma getPairs_frame:
  "getPairs ep sg items0 items1 c =
     bind_r (getPairs ep sg items0 items1 [])
       (\<lambda>(a, b, found). Inr (a, b, sort_unique (c @ found)))"
proof -
  let ?o = "outer_scan ep sg (sort_items items0) (sort_items items1) 0 0"
  have "?o c = bind_r (?o []) (\<lambda>n. Inr (c @ n))" by (rule outer_scan_prefix)
  then show ?thesis
    by (cases "?o []") (simp_all add: getPairs_def Let_def sort_unique_idem)
qed

lemma getPairs_self_frame:
  "getPairs_self ep sg items c =
     bind_r (getPairs_self ep sg items [])
       (\<lambda>(a, found). Inr (a, sort_unique (c @ found)))"
proof -
  let ?o = "self_outer ep sg (sort_items items) 0"
  have "?o c = bind_r (?o []) (\<lambda>n. Inr (c @ n))" by (rule self_outer_prefix)
  then show ?thesis
    by (cases "?o []") (simp_all add: getPairs_self_def Let_def sort_unique_idem)
qed

lemma getPairs_sound:
  assumes "getPairs ep sg items0 items1 [] = Inr (a, b, res)" and "p \<in> set res"
  shows "emitted ep sg items0 items1 p"
proof -
  from assms(1) obtain found where
    f: "outer_scan ep sg (sort_items items0) (sort_items items1) 0 0 [] = Inr found"
    and r: "res = sort_unique found"
    by (auto simp: getPairs_def Let_def bind_r_Inr_iff)
  from assms(2) r have "p \<in> set found" by (simp add: set_sort_unique)
  from outer_scan_sound[OF f this] show ?thesis by (simp add: emitted_sort_items)
qed

lemma getPairs_self_sound:
  assumes "getPairs_self ep sg items [] = Inr (a, res)" and "p \<in> set res"
  shows "emitted ep sg items items p"
proof -
  from assms(1) obtain found where
    f: "self_outer ep sg (sort_items items) 0 [] = Inr found"
    and r: "res = sort_unique found"
    by (auto simp: getPairs_self_def Let_def bind_r_Inr_iff)
  from assms(2) r have "p \<in> set found" by (simp add: set_sort_unique)
  from self_outer_sound[OF f this] show ?thesis by (simp add: emitted_sort_items)
qed

lemma getPairs_sorted:
  "getPairs ep sg items0 items1 c = Inr (a, b, res) \<Longrightarrow> sorted res \<and> distinct res"
  by (auto simp: getPairs_def Let_def bind_r_Inr_iff sorted_sort_unique distinct_sort_unique)

lemma getPairs_self_sorted:
  "getPairs_self ep sg items c = Inr (a, res) \<Longrightarrow> sorted res \<and> distinct res"
  by (auto simp: getPairs_self_def Let_def bind_r_Inr_iff sorted_sort_unique distinct_sort_unique)

subsection \<open>The queries\<close>

lemma result_of_snd: "map_sum id snd x = Inr r \<Longrightarrow> \<exists>g'. x = Inr (g', r)"
  by (cases x) auto

text \<open>The example grid is populated without a failure; the four queries on it.\<close>

lemma ex3_populated_ok: "ex3_populated = Inr ex3_grid"
proof -
  have "\<not> isl ex3_populated" by code_simp
  then show ?thesis unfolding ex3_grid_def by (cases ex3_populated) simp_all
qed

lemma ex3_ev: "\<exists>g'. getVertexEdgePairs ex3_grid ex3_E ex3_groups [] = Inr (g', [(2, 5), (2, 6), (3, 5)])"
  by (rule result_of_snd) code_simp

lemma ex3_ee: "\<exists>g'. getEdgeEdgePairs ex3_grid ex3_E ex3_groups [] = Inr (g', [(0, 2), (0, 4), (2, 4), (3, 4)])"
  by (rule result_of_snd) code_simp

lemma ex3_ef: "\<exists>g'. getEdgeFacePairs ex3_grid ex3_E ex3_F ex3_groups [] = Inr (g', [(0, 0), (4, 0)])"
  by (rule result_of_snd) code_simp

lemma ex3_fv: "\<exists>g'. getFaceVertexPairs ex3_grid ex3_F ex3_groups [] = Inr (g', [(0, 5), (0, 6)])"
  by (rule result_of_snd) code_simp

lemma ev_getPairs:
  "getVertexEdgePairs g edges group_ids c = Inr (g', res) \<Longrightarrow>
   \<exists>a b. getPairs (ev_is_endpoint edges) (ev_is_same_group edges group_ids)
            (m_edgeItems g) (m_vertexItems g) c = Inr (a, b, res)"
  by (auto simp: getVertexEdgePairs_def bind_r_Inr_iff)

lemma ee_getPairs:
  "getEdgeEdgePairs g edges group_ids c = Inr (g', res) \<Longrightarrow>
   \<exists>a. getPairs_self (ee_is_endpoint edges) (ee_is_same_group edges group_ids)
            (m_edgeItems g) c = Inr (a, res)"
  by (auto simp: getEdgeEdgePairs_def bind_r_Inr_iff)

lemma ef_getPairs:
  "getEdgeFacePairs g edges faces group_ids c = Inr (g', res) \<Longrightarrow>
   \<exists>a b. getPairs (ef_is_endpoint edges faces) (ef_is_same_group edges faces group_ids)
            (m_edgeItems g) (m_faceItems g) c = Inr (a, b, res)"
  by (auto simp: getEdgeFacePairs_def bind_r_Inr_iff)

lemma fv_getPairs:
  "getFaceVertexPairs g faces group_ids c = Inr (g', res) \<Longrightarrow>
   \<exists>a b. getPairs (fv_is_endpoint faces) (fv_is_same_group faces group_ids)
            (m_faceItems g) (m_vertexItems g) c = Inr (a, b, res)"
  by (auto simp: getFaceVertexPairs_def bind_r_Inr_iff)

lemma emitted_filters:
  "emitted ep sg items0 items1 (a, b) \<Longrightarrow> ep a b = Inr False \<and> sg a b = Inr False"
  unfolding emitted_def by (auto dest: passes_True)

lemma emitted_overlap:
  "emitted ep sg items0 items1 (a, b) \<Longrightarrow>
     \<exists>h0 \<in> set items0. \<exists>h1 \<in> set items1. item_id h0 = a \<and> item_id h1 = b \<and>
        key h0 = key h1 \<and> are_overlapping (aabb h0) (aabb h1) = Inr True"
  unfolding emitted_def by (auto dest: passes_True)

text \<open>Claim C2 (filter soundness). A query called with an empty output list returns no pair
  for which \<open>is_endpoint\<close> is true and none for which \<open>is_same_group\<close> is true: for
  every returned pair both lambdas of the query evaluate to false.\<close>

theorem filter_soundness:
  "(getVertexEdgePairs g edges group_ids [] = Inr (g', res) \<and> (a, b) \<in> set res \<longrightarrow>
      ev_is_endpoint edges a b = Inr False \<and>
      ev_is_same_group edges group_ids a b = Inr False) \<and>
   (getEdgeEdgePairs g edges group_ids [] = Inr (g', res) \<and> (a, b) \<in> set res \<longrightarrow>
      ee_is_endpoint edges a b = Inr False \<and>
      ee_is_same_group edges group_ids a b = Inr False) \<and>
   (getEdgeFacePairs g edges faces group_ids [] = Inr (g', res) \<and> (a, b) \<in> set res \<longrightarrow>
      ef_is_endpoint edges faces a b = Inr False \<and>
      ef_is_same_group edges faces group_ids a b = Inr False) \<and>
   (getFaceVertexPairs g faces group_ids [] = Inr (g', res) \<and> (a, b) \<in> set res \<longrightarrow>
      fv_is_endpoint faces a b = Inr False \<and>
      fv_is_same_group faces group_ids a b = Inr False)"
proof -
  have 1: "ev_is_endpoint edges a b = Inr False \<and>
      ev_is_same_group edges group_ids a b = Inr False"
    if "getVertexEdgePairs g edges group_ids [] = Inr (g', res)" "(a, b) \<in> set res"
    using that by (blast dest: ev_getPairs getPairs_sound emitted_filters)
  have 2: "ee_is_endpoint edges a b = Inr False \<and>
      ee_is_same_group edges group_ids a b = Inr False"
    if "getEdgeEdgePairs g edges group_ids [] = Inr (g', res)" "(a, b) \<in> set res"
    using that by (blast dest: ee_getPairs getPairs_self_sound emitted_filters)
  have 3: "ef_is_endpoint edges faces a b = Inr False \<and>
      ef_is_same_group edges faces group_ids a b = Inr False"
    if "getEdgeFacePairs g edges faces group_ids [] = Inr (g', res)" "(a, b) \<in> set res"
    using that by (blast dest: ef_getPairs getPairs_sound emitted_filters)
  have 4: "fv_is_endpoint faces a b = Inr False \<and>
      fv_is_same_group faces group_ids a b = Inr False"
    if "getFaceVertexPairs g faces group_ids [] = Inr (g', res)" "(a, b) \<in> set res"
    using that by (blast dest: fv_getPairs getPairs_sound emitted_filters)
  show ?thesis using 1 2 3 4 by blast
qed

text \<open>The four conjuncts of C2 on the example mesh with group labels.\<close>

theorem filter_soundness_witness:
  "ex3_populated = Inr ex3_grid \<and>
   (ev_is_endpoint ex3_E 2 5 = Inr False \<and> ev_is_same_group ex3_E ex3_groups 2 5 = Inr False) \<and>
   (ee_is_endpoint ex3_E 0 2 = Inr False \<and> ee_is_same_group ex3_E ex3_groups 0 2 = Inr False) \<and>
   (ef_is_endpoint ex3_E ex3_F 4 0 = Inr False \<and>
      ef_is_same_group ex3_E ex3_F ex3_groups 4 0 = Inr False) \<and>
   (fv_is_endpoint ex3_F 0 6 = Inr False \<and> fv_is_same_group ex3_F ex3_groups 0 6 = Inr False)"
proof -
  obtain g1 where 1: "getVertexEdgePairs ex3_grid ex3_E ex3_groups [] = Inr (g1, [(2, 5), (2, 6), (3, 5)])"
    using ex3_ev by blast
  obtain g2 where 2: "getEdgeEdgePairs ex3_grid ex3_E ex3_groups [] = Inr (g2, [(0, 2), (0, 4), (2, 4), (3, 4)])"
    using ex3_ee by blast
  obtain g3 where 3: "getEdgeFacePairs ex3_grid ex3_E ex3_F ex3_groups [] = Inr (g3, [(0, 0), (4, 0)])"
    using ex3_ef by blast
  obtain g4 where 4: "getFaceVertexPairs ex3_grid ex3_F ex3_groups [] = Inr (g4, [(0, 5), (0, 6)])"
    using ex3_fv by blast
  show ?thesis
    using
      filter_soundness[where g = ex3_grid and edges = ex3_E and group_ids = ex3_groups
        and g' = g1 and res = "[(2, 5), (2, 6), (3, 5)]" and a = 2 and b = 5]
      filter_soundness[where g = ex3_grid and edges = ex3_E and group_ids = ex3_groups
        and g' = g2 and res = "[(0, 2), (0, 4), (2, 4), (3, 4)]" and a = 0 and b = 2]
      filter_soundness[where g = ex3_grid and edges = ex3_E and faces = ex3_F
        and group_ids = ex3_groups and g' = g3 and res = "[(0, 0), (4, 0)]" and a = 4 and b = 0]
      filter_soundness[where g = ex3_grid and faces = ex3_F and group_ids = ex3_groups
        and g' = g4 and res = "[(0, 5), (0, 6)]" and a = 0 and b = 6]
      1 2 3 4 ex3_populated_ok
    by simp
qed


text \<open>Claim C3 (overlap soundness). Every pair a query returns into an empty output list is
  the pair of ids of two items of the two joined buckets, with equal keys, whose carried
  boxes satisfy \<open>are_overlapping\<close>.\<close>

theorem overlap_soundness:
  "(getVertexEdgePairs g edges group_ids [] = Inr (g', res) \<and> (a, b) \<in> set res \<longrightarrow>
      (\<exists>h0 \<in> set (m_edgeItems g). \<exists>h1 \<in> set (m_vertexItems g).
          item_id h0 = a \<and> item_id h1 = b \<and> key h0 = key h1 \<and>
          are_overlapping (aabb h0) (aabb h1) = Inr True)) \<and>
   (getEdgeEdgePairs g edges group_ids [] = Inr (g', res) \<and> (a, b) \<in> set res \<longrightarrow>
      (\<exists>h0 \<in> set (m_edgeItems g). \<exists>h1 \<in> set (m_edgeItems g).
          item_id h0 = a \<and> item_id h1 = b \<and> key h0 = key h1 \<and>
          are_overlapping (aabb h0) (aabb h1) = Inr True)) \<and>
   (getEdgeFacePairs g edges faces group_ids [] = Inr (g', res) \<and> (a, b) \<in> set res \<longrightarrow>
      (\<exists>h0 \<in> set (m_edgeItems g). \<exists>h1 \<in> set (m_faceItems g).
          item_id h0 = a \<and> item_id h1 = b \<and> key h0 = key h1 \<and>
          are_overlapping (aabb h0) (aabb h1) = Inr True)) \<and>
   (getFaceVertexPairs g faces group_ids [] = Inr (g', res) \<and> (a, b) \<in> set res \<longrightarrow>
      (\<exists>h0 \<in> set (m_faceItems g). \<exists>h1 \<in> set (m_vertexItems g).
          item_id h0 = a \<and> item_id h1 = b \<and> key h0 = key h1 \<and>
          are_overlapping (aabb h0) (aabb h1) = Inr True))"
proof -
  have 1: "\<exists>h0 \<in> set (m_edgeItems g). \<exists>h1 \<in> set (m_vertexItems g).
          item_id h0 = a \<and> item_id h1 = b \<and> key h0 = key h1 \<and>
          are_overlapping (aabb h0) (aabb h1) = Inr True"
    if "getVertexEdgePairs g edges group_ids [] = Inr (g', res)" "(a, b) \<in> set res"
  proof -
    from that have "emitted (ev_is_endpoint edges) (ev_is_same_group edges group_ids)
        (m_edgeItems g) (m_vertexItems g) (a, b)"
      by (blast dest: ev_getPairs getPairs_sound)
    then show ?thesis by (rule emitted_overlap)
  qed
  have 2: "\<exists>h0 \<in> set (m_edgeItems g). \<exists>h1 \<in> set (m_edgeItems g).
          item_id h0 = a \<and> item_id h1 = b \<and> key h0 = key h1 \<and>
          are_overlapping (aabb h0) (aabb h1) = Inr True"
    if "getEdgeEdgePairs g edges group_ids [] = Inr (g', res)" "(a, b) \<in> set res"
  proof -
    from that have "emitted (ee_is_endpoint edges) (ee_is_same_group edges group_ids)
        (m_edgeItems g) (m_edgeItems g) (a, b)"
      by (blast dest: ee_getPairs getPairs_self_sound)
    then show ?thesis by (rule emitted_overlap)
  qed
  have 3: "\<exists>h0 \<in> set (m_edgeItems g). \<exists>h1 \<in> set (m_faceItems g).
          item_id h0 = a \<and> item_id h1 = b \<and> key h0 = key h1 \<and>
          are_overlapping (aabb h0) (aabb h1) = Inr True"
    if "getEdgeFacePairs g edges faces group_ids [] = Inr (g', res)" "(a, b) \<in> set res"
  proof -
    from that have "emitted (ef_is_endpoint edges faces)
        (ef_is_same_group edges faces group_ids) (m_edgeItems g) (m_faceItems g) (a, b)"
      by (blast dest: ef_getPairs getPairs_sound)
    then show ?thesis by (rule emitted_overlap)
  qed
  have 4: "\<exists>h0 \<in> set (m_faceItems g). \<exists>h1 \<in> set (m_vertexItems g).
          item_id h0 = a \<and> item_id h1 = b \<and> key h0 = key h1 \<and>
          are_overlapping (aabb h0) (aabb h1) = Inr True"
    if "getFaceVertexPairs g faces group_ids [] = Inr (g', res)" "(a, b) \<in> set res"
  proof -
    from that have "emitted (fv_is_endpoint faces) (fv_is_same_group faces group_ids)
        (m_faceItems g) (m_vertexItems g) (a, b)"
      by (blast dest: fv_getPairs getPairs_sound)
    then show ?thesis by (rule emitted_overlap)
  qed
  show ?thesis using 1 2 3 4 by blast
qed

text \<open>The four conjuncts of C3 on the example mesh.\<close>

theorem overlap_soundness_witness:
  "ex3_populated = Inr ex3_grid \<and>
   (\<exists>h0 \<in> set (m_edgeItems ex3_grid). \<exists>h1 \<in> set (m_vertexItems ex3_grid).
      item_id h0 = 3 \<and> item_id h1 = 5 \<and> key h0 = key h1 \<and>
      are_overlapping (aabb h0) (aabb h1) = Inr True) \<and>
   (\<exists>h0 \<in> set (m_edgeItems ex3_grid). \<exists>h1 \<in> set (m_edgeItems ex3_grid).
      item_id h0 = 2 \<and> item_id h1 = 4 \<and> key h0 = key h1 \<and>
      are_overlapping (aabb h0) (aabb h1) = Inr True) \<and>
   (\<exists>h0 \<in> set (m_edgeItems ex3_grid). \<exists>h1 \<in> set (m_faceItems ex3_grid).
      item_id h0 = 0 \<and> item_id h1 = 0 \<and> key h0 = key h1 \<and>
      are_overlapping (aabb h0) (aabb h1) = Inr True) \<and>
   (\<exists>h0 \<in> set (m_faceItems ex3_grid). \<exists>h1 \<in> set (m_vertexItems ex3_grid).
      item_id h0 = 0 \<and> item_id h1 = 5 \<and> key h0 = key h1 \<and>
      are_overlapping (aabb h0) (aabb h1) = Inr True)"
proof -
  obtain g1 where 1: "getVertexEdgePairs ex3_grid ex3_E ex3_groups [] = Inr (g1, [(2, 5), (2, 6), (3, 5)])"
    using ex3_ev by blast
  obtain g2 where 2: "getEdgeEdgePairs ex3_grid ex3_E ex3_groups [] = Inr (g2, [(0, 2), (0, 4), (2, 4), (3, 4)])"
    using ex3_ee by blast
  obtain g3 where 3: "getEdgeFacePairs ex3_grid ex3_E ex3_F ex3_groups [] = Inr (g3, [(0, 0), (4, 0)])"
    using ex3_ef by blast
  obtain g4 where 4: "getFaceVertexPairs ex3_grid ex3_F ex3_groups [] = Inr (g4, [(0, 5), (0, 6)])"
    using ex3_fv by blast
  show ?thesis
    using
      overlap_soundness[where g = ex3_grid and edges = ex3_E and group_ids = ex3_groups
        and g' = g1 and res = "[(2, 5), (2, 6), (3, 5)]" and a = 3 and b = 5]
      overlap_soundness[where g = ex3_grid and edges = ex3_E and group_ids = ex3_groups
        and g' = g2 and res = "[(0, 2), (0, 4), (2, 4), (3, 4)]" and a = 2 and b = 4]
      overlap_soundness[where g = ex3_grid and edges = ex3_E and faces = ex3_F
        and group_ids = ex3_groups and g' = g3 and res = "[(0, 0), (4, 0)]" and a = 0 and b = 0]
      overlap_soundness[where g = ex3_grid and faces = ex3_F and group_ids = ex3_groups
        and g' = g4 and res = "[(0, 5), (0, 6)]" and a = 0 and b = 5]
      1 2 3 4 ex3_populated_ok
    by simp
qed

text \<open>Claim C4. Whatever the output list held before, the list a query returns is sorted in
  the order of the candidates and has no two equal entries.\<close>

theorem candidates_sorted_unique:
  assumes "getVertexEdgePairs g edges group_ids c = Inr (g', res) \<or>
           getEdgeEdgePairs g edges group_ids c = Inr (g', res) \<or>
           getEdgeFacePairs g edges faces group_ids c = Inr (g', res) \<or>
           getFaceVertexPairs g faces group_ids c = Inr (g', res)"
  shows "sorted res \<and> distinct res"
  using assms
  by (blast dest: ev_getPairs ee_getPairs ef_getPairs fv_getPairs getPairs_sorted
      getPairs_self_sorted)

lemma ex3_ev_dirty:
  "\<exists>g'. getVertexEdgePairs ex3_grid ex3_E [] [(9, 9), (2, 5), (9, 9), (0, 1)] =
     Inr (g', [(0, 1), (2, 0), (2, 5), (2, 6), (3, 5), (9, 9)])"
  by (rule result_of_snd) code_simp

text \<open>C4 on the example mesh, once with an unsorted output list that holds a duplicate.\<close>

theorem candidates_sorted_unique_witness:
  "(\<exists>g' res. getVertexEdgePairs ex3_grid ex3_E [] [(9, 9), (2, 5), (9, 9), (0, 1)] = Inr (g', res) \<and>
      res = [(0, 1), (2, 0), (2, 5), (2, 6), (3, 5), (9, 9)] \<and> sorted res \<and> distinct res) \<and>
   (\<exists>g' res. getEdgeEdgePairs ex3_grid ex3_E ex3_groups [] = Inr (g', res) \<and>
      sorted res \<and> distinct res)"
proof -
  obtain g1 where 1: "getVertexEdgePairs ex3_grid ex3_E [] [(9, 9), (2, 5), (9, 9), (0, 1)] =
     Inr (g1, [(0, 1), (2, 0), (2, 5), (2, 6), (3, 5), (9, 9)])"
    using ex3_ev_dirty by blast
  obtain g2 where 2: "getEdgeEdgePairs ex3_grid ex3_E ex3_groups [] = Inr (g2, [(0, 2), (0, 4), (2, 4), (3, 4)])"
    using ex3_ee by blast
  show ?thesis
    using candidates_sorted_unique[of ex3_grid ex3_E "[]" "[(9, 9), (2, 5), (9, 9), (0, 1)]" g1
            "[(0, 1), (2, 0), (2, 5), (2, 6), (3, 5), (9, 9)]"] 1
          candidates_sorted_unique[of ex3_grid ex3_E ex3_groups "[]" g2
            "[(0, 2), (0, 4), (2, 4), (3, 4)]"] 2
    by blast
qed

lemma query_frame:
  "bind_r (bind_r (getPairs ep sg i0 i1 []) (\<lambda>(a, b, found). Inr (a, b, sort_unique (c @ found))))
      (\<lambda>(a, b, res). Inr (upd a b, res)) =
   bind_r (bind_r (getPairs ep sg i0 i1 []) (\<lambda>(a, b, res). Inr (upd a b, res)))
      (\<lambda>(g', found). Inr (g', sort_unique (c @ found)))"
  by (cases "getPairs ep sg i0 i1 []") auto

lemma query_self_frame:
  "bind_r (bind_r (getPairs_self ep sg i0 []) (\<lambda>(a, found). Inr (a, sort_unique (c @ found))))
      (\<lambda>(a, res). Inr (upd a, res)) =
   bind_r (bind_r (getPairs_self ep sg i0 []) (\<lambda>(a, res). Inr (upd a, res)))
      (\<lambda>(g', found). Inr (g', sort_unique (c @ found)))"
  by (cases "getPairs_self ep sg i0 []") auto

text \<open>Claim C9. A query sorts and deduplicates the whole output vector: called with the list
  \<open>c\<close> it returns the sorted, duplicate-free list of the entries of \<open>c\<close> together with the
  pairs it returns on the empty list. So it is no pure append: on an empty grid each query
  turns the list (2,0), (1,0), (1,0) into (1,0), (2,0).\<close>

theorem whole_vector_sorted_and_deduplicated:
  "getVertexEdgePairs g edges group_ids c =
     bind_r (getVertexEdgePairs g edges group_ids [])
       (\<lambda>(g', found). Inr (g', sort_unique (c @ found))) \<and>
   getEdgeEdgePairs g edges group_ids c =
     bind_r (getEdgeEdgePairs g edges group_ids [])
       (\<lambda>(g', found). Inr (g', sort_unique (c @ found))) \<and>
   getEdgeFacePairs g edges faces group_ids c =
     bind_r (getEdgeFacePairs g edges faces group_ids [])
       (\<lambda>(g', found). Inr (g', sort_unique (c @ found))) \<and>
   getFaceVertexPairs g faces group_ids c =
     bind_r (getFaceVertexPairs g faces group_ids [])
       (\<lambda>(g', found). Inr (g', sort_unique (c @ found))) \<and>
   set (sort_unique (c @ found)) = set c \<union> set found \<and>
   sorted (sort_unique (c @ found)) \<and> distinct (sort_unique (c @ found)) \<and>
   getVertexEdgePairs new_grid [] [] [(2, 0), (1, 0), (1, 0)] = Inr (new_grid, [(1, 0), (2, 0)]) \<and>
   getEdgeEdgePairs new_grid [] [] [(2, 0), (1, 0), (1, 0)] = Inr (new_grid, [(1, 0), (2, 0)]) \<and>
   getEdgeFacePairs new_grid [] [] [] [(2, 0), (1, 0), (1, 0)] =
     Inr (new_grid, [(1, 0), (2, 0)]) \<and>
   getFaceVertexPairs new_grid [] [] [(2, 0), (1, 0), (1, 0)] = Inr (new_grid, [(1, 0), (2, 0)])"
proof -
  have 1: "getVertexEdgePairs g edges group_ids c =
     bind_r (getVertexEdgePairs g edges group_ids [])
       (\<lambda>(g', found). Inr (g', sort_unique (c @ found)))"
    unfolding getVertexEdgePairs_def
    by (subst getPairs_frame) (rule query_frame)
  have 2: "getEdgeEdgePairs g edges group_ids c =
     bind_r (getEdgeEdgePairs g edges group_ids [])
       (\<lambda>(g', found). Inr (g', sort_unique (c @ found)))"
    unfolding getEdgeEdgePairs_def
    by (subst getPairs_self_frame) (rule query_self_frame)
  have 3: "getEdgeFacePairs g edges faces group_ids c =
     bind_r (getEdgeFacePairs g edges faces group_ids [])
       (\<lambda>(g', found). Inr (g', sort_unique (c @ found)))"
    unfolding getEdgeFacePairs_def
    by (subst getPairs_frame) (rule query_frame)
  have 4: "getFaceVertexPairs g faces group_ids c =
     bind_r (getFaceVertexPairs g faces group_ids [])
       (\<lambda>(g', found). Inr (g', sort_unique (c @ found)))"
    unfolding getFaceVertexPairs_def
    by (subst getPairs_frame) (rule query_frame)
  have 5: "set (sort_unique (c @ found)) = set c \<union> set found \<and>
   sorted (sort_unique (c @ found)) \<and> distinct (sort_unique (c @ found))"
    by (simp add: set_sort_unique sorted_sort_unique distinct_sort_unique)
  have 6: "getVertexEdgePairs new_grid [] [] [(2, 0), (1, 0), (1, 0)] =
      Inr (new_grid, [(1, 0), (2, 0)])"
    by code_simp
  have 7: "getEdgeEdgePairs new_grid [] [] [(2, 0), (1, 0), (1, 0)] =
      Inr (new_grid, [(1, 0), (2, 0)])"
    by code_simp
  have 8: "getEdgeFacePairs new_grid [] [] [] [(2, 0), (1, 0), (1, 0)] =
      Inr (new_grid, [(1, 0), (2, 0)])"
    by code_simp
  have 9: "getFaceVertexPairs new_grid [] [] [(2, 0), (1, 0), (1, 0)] =
      Inr (new_grid, [(1, 0), (2, 0)])"
    by code_simp
  show ?thesis using 1 2 3 4 5 6 7 8 9 by simp
qed

subsection \<open>The cell hash, the stored keys and resize\<close>

lemma wrap32_range: "- (2 ^ 31) \<le> wrap32 i \<and> wrap32 i < 2 ^ 31"
  unfolding wrap32_def
  using pos_mod_bound[of "2 ^ 32" "i + 2 ^ 31"] pos_mod_sign[of "2 ^ 32" "i + 2 ^ 31"]
  by simp

lemma wrap32_id: "- (2 ^ 31) \<le> i \<Longrightarrow> i < 2 ^ 31 \<Longrightarrow> wrap32 i = i"
  unfolding wrap32_def by (simp add: mod_pos_pos_trivial)

lemma wrap32_cong: "a mod 2 ^ 32 = b mod 2 ^ 32 \<Longrightarrow> wrap32 a = wrap32 b"
  unfolding wrap32_def by (metis mod_add_left_eq)

lemma wrap32_mod: "wrap32 a mod 2 ^ 32 = a mod 2 ^ 32"
proof -
  have "wrap32 a = (a + 2 ^ 31) mod 2 ^ 32 - 2 ^ 31" by (simp add: wrap32_def)
  then have "wrap32 a mod 2 ^ 32 = ((a + 2 ^ 31) mod 2 ^ 32 - 2 ^ 31) mod 2 ^ 32" by simp
  also have "\<dots> = (a + 2 ^ 31 - 2 ^ 31) mod 2 ^ 32" by (rule mod_diff_left_eq)
  finally show ?thesis by simp
qed

lemma wrap32_idem: "wrap32 (wrap32 a) = wrap32 a"
  by (rule wrap32_cong) (rule wrap32_mod)

lemma wrap32_add_left: "wrap32 (wrap32 a + b) = wrap32 (a + b)"
  by (rule wrap32_cong) (metis mod_add_left_eq wrap32_mod)

lemma wrap32_mult_left: "wrap32 (wrap32 a * b) = wrap32 (a * b)"
  by (rule wrap32_cong) (metis mod_mult_left_eq wrap32_mod)

lemma hash_wraps:
  "wrap32 (wrap32 (wrap32 (wrap32 (z * g1) + y) * g0) + x) = wrap32 ((z * g1 + y) * g0 + x)"
  by (simp add: wrap32_add_left wrap32_mult_left)

lemma hash_in_grid:
  assumes "cell_in_grid (m_gridSize g) x y z"
  shows "hash g x y z =
           Inr (wrap32 ((z * m_gridSize g ! 1 + y) * m_gridSize g ! 0 + x))"
  using assms
  by (auto simp: hash_def cell_in_grid_def coeff_def and_also_def or_else_def hash_wraps)

lemma cell_value_bounds:
  assumes "cell_in_grid G x y z"
  shows "0 \<le> (z * G ! 1 + y) * G ! 0 + x" and "(z * G ! 1 + y) * G ! 0 + x < cell_count G"
proof -
  define g0 where "g0 = G ! 0"
  define g1 where "g1 = G ! 1"
  define g2 where "g2 = (if length G = 3 then G ! 2 else 1)"
  have x: "0 \<le> x" "x < g0" and y: "0 \<le> y" "y < g1" and z: "0 \<le> z" "z < g2"
    using assms by (auto simp: cell_in_grid_def g0_def g1_def g2_def)
  have zy: "0 \<le> z * g1 + y" using y z by simp
  then have "0 \<le> (z * g1 + y) * g0 + x" using x by simp
  then show "0 \<le> (z * G ! 1 + y) * G ! 0 + x" by (simp only: g0_def g1_def)
  have "z * g1 \<le> (g2 - 1) * g1" using z y by (intro mult_right_mono) auto
  then have "z * g1 + y \<le> g2 * g1 - 1" using y by (simp add: algebra_simps)
  then have "(z * g1 + y) * g0 \<le> (g2 * g1 - 1) * g0"
    using x by (intro mult_right_mono) auto
  then have "(z * g1 + y) * g0 + x < g0 * g1 * g2" using x by (simp add: algebra_simps)
  then show "(z * G ! 1 + y) * G ! 0 + x < cell_count G"
    by (simp only: cell_count_def g0_def g1_def g2_def)
qed

lemma hash_exact:
  assumes "cell_in_grid (m_gridSize g) x y z" and "cell_count (m_gridSize g) \<le> 2 ^ 31"
  shows "hash g x y z = Inr ((z * m_gridSize g ! 1 + y) * m_gridSize g ! 0 + x)"
  using hash_in_grid[OF assms(1)] cell_value_bounds[OF assms(1)] assms(2)
  by (simp add: wrap32_id)

lemma decode_encode:
  assumes "0 \<le> x" "x < Gx" "0 \<le> y" "y < Gy"
  shows "decode Gx Gy ((z * Gy + y) * Gx + x) = (x, y, z)"
proof -
  have 1: "((z * Gy + y) * Gx + x) mod Gx = x" using assms by simp
  have 2: "((z * Gy + y) * Gx + x) div Gx = z * Gy + y" using assms by simp
  have 3: "(z * Gy + y) mod Gy = y" using assms by simp
  have 4: "(z * Gy + y) div Gy = z" using assms by simp
  have "((z * Gy + y) * Gx + x) div (Gx * Gy) = ((z * Gy + y) * Gx + x) div Gx div Gy"
    using assms by (intro zdiv_zmult2_eq) simp
  then have 5: "((z * Gy + y) * Gx + x) div (Gx * Gy) = z" by (simp only: 2 4)
  show ?thesis by (simp only: decode_def 1 2 3 5)
qed

text \<open>Claim C7 (hash round trip), amended. For a cell inside a grid of at most \<open>2 ^ 31\<close>
  cells, \<open>hash\<close> returns a key that the decoding of the specification maps back to the cell,
  and two cells of the grid with the same hash are the same cell.\<close>

theorem hash_round_trip:
  assumes "cell_in_grid (m_gridSize g) x y z" and "cell_count (m_gridSize g) \<le> 2 ^ 31"
  shows "(\<exists>k. hash g x y z = Inr k \<and>
              decode (m_gridSize g ! 0) (m_gridSize g ! 1) k = (x, y, z)) \<and>
         (cell_in_grid (m_gridSize g) x' y' z' \<and> hash g x' y' z' = hash g x y z \<longrightarrow>
              (x', y', z') = (x, y, z))"
proof -
  let ?Gx = "m_gridSize g ! 0" and ?Gy = "m_gridSize g ! 1"
  let ?v = "\<lambda>a b c. (c * ?Gy + b) * ?Gx + a"
  have d: "decode ?Gx ?Gy (?v a b c) = (a, b, c)"
    if "cell_in_grid (m_gridSize g) a b c" for a b c
  proof -
    from that have "0 \<le> a" "a < ?Gx" "0 \<le> b" "b < ?Gy"
      unfolding cell_in_grid_def by blast+
    then show ?thesis by (rule decode_encode)
  qed
  have h: "hash g a b c = Inr (?v a b c)" if "cell_in_grid (m_gridSize g) a b c" for a b c
    using that assms(2) by (rule hash_exact)
  have "(x', y', z') = (x, y, z)"
    if c: "cell_in_grid (m_gridSize g) x' y' z'" and e: "hash g x' y' z' = hash g x y z"
  proof -
    from e have "?v x' y' z' = ?v x y z" unfolding h[OF c] h[OF assms(1)] by (rule Inr_inject)
    then have "decode ?Gx ?Gy (?v x' y' z') = decode ?Gx ?Gy (?v x y z)" by (rule arg_cong)
    then show ?thesis unfolding d[OF c] d[OF assms(1)] .
  qed
  moreover have "\<exists>k. hash g x y z = Inr k \<and> decode ?Gx ?Gy k = (x, y, z)"
    using h[OF assms(1)] d[OF assms(1)] by blast
  ultimately show ?thesis by blast
qed

text \<open>C7 at the cell (1, 0, 1) of the example grid.\<close>

theorem hash_round_trip_witness:
  "(\<exists>k. hash ex3_grid 1 0 1 = Inr k \<and> decode 2 2 k = (1, 0, 1)) \<and> hash ex3_grid 1 0 1 = Inr 5"
proof -
  have g: "m_gridSize ex3_grid = [2, 2, 2]" by code_simp
  have 1: "cell_in_grid (m_gridSize ex3_grid) 1 0 1" unfolding g by (simp add: cell_in_grid_def)
  have 2: "cell_count (m_gridSize ex3_grid) \<le> 2 ^ 31" unfolding g by (simp add: cell_count_def)
  have 3: "hash ex3_grid 1 0 1 = Inr 5" by code_simp
  show ?thesis using hash_round_trip[OF 1 2] 3 by (simp add: g)
qed

text \<open>C7 as stated fails on a grid of 65536 x 65536 cells: for the cell (0, 32768, 0) the
  product \<open>32768 * 65536\<close> leaves the range of \<open>int\<close>, the hash is \<open>- 2 ^ 31\<close>, and its
  decoding is not the cell (with the flooring division used here as with the truncating
  division of C++).\<close>

theorem hash_round_trip_counterexample:
  "resize new_grid [0, 0] [65536, 65536] 1 = Inr big_grid \<and>
   cell_in_grid (m_gridSize big_grid) 0 32768 0 \<and>
   hash big_grid 0 32768 0 = Inr (- 2147483648) \<and>
   decode (m_gridSize big_grid ! 0) (m_gridSize big_grid ! 1) (- 2147483648) \<noteq> (0, 32768, 0)"
  by code_simp

lemma for_each_appends:
  assumes step: "\<And>x s s'. x \<in> set xs \<Longrightarrow> body x s = Inr s' \<Longrightarrow>
      \<exists>new. s' = s @ new \<and> (\<forall>h \<in> set new. Q x h)"
    and run: "for_each xs body s = Inr s'"
  shows "\<exists>new. s' = s @ new \<and> (\<forall>h \<in> set new. \<exists>x \<in> set xs. Q x h)"
  using assms
proof (induction xs arbitrary: s)
  case Nil
  then show ?case by simp
next
  case (Cons a xs)
  from Cons.prems(2) obtain s1 where a: "body a s = Inr s1" and r: "for_each xs body s1 = Inr s'"
    by (auto simp: bind_r_Inr_iff)
  from Cons.prems(1)[OF _ a] obtain n1 where n1: "s1 = s @ n1" "\<forall>h \<in> set n1. Q a h"
    by auto
  have "\<exists>new. s' = s1 @ new \<and> (\<forall>h \<in> set new. \<exists>x \<in> set xs. Q x h)"
    by (rule Cons.IH[OF _ r]) (rule Cons.prems(1), simp_all)
  then obtain n2 where n2: "s' = s1 @ n2" "\<forall>h \<in> set n2. \<exists>x \<in> set xs. Q x h" by auto
  show ?case
    by (rule exI[of _ "n1 @ n2"]) (use n1 n2 in auto)
qed

lemma and_also_True: "and_also p q = Inr True \<longleftrightarrow> p = Inr True \<and> q = Inr True"
  by (cases p) (auto simp: and_also_def)

lemma or_else_True:
  "or_else p q = Inr True \<longleftrightarrow> p = Inr True \<or> p = Inr False \<and> q = Inr True"
  by (cases p) (auto simp: or_else_def)

lemma bind_coeff_Inr:
  "bind_r (coeff v k) f = Inr y \<longleftrightarrow> k < length v \<and> f (v ! k) = Inr y"
  by (simp add: coeff_def)

lemma hash_Inr:
  assumes "hash g x y z = Inr k"
  shows "2 \<le> length (m_gridSize g) \<and> 0 \<le> x \<and> x < m_gridSize g ! 0 \<and> 0 \<le> y \<and>
         y < m_gridSize g ! 1 \<and> 0 \<le> z \<and>
         (length (m_gridSize g) = 2 \<or> 3 \<le> length (m_gridSize g) \<and> z < m_gridSize g ! 2) \<and>
         k = wrap32 ((z * m_gridSize g ! 1 + y) * m_gridSize g ! 0 + x)"
proof -
  let ?G = "m_gridSize g"
  let ?A = "and_also
             (and_also (bind_r (coeff ?G 0) (\<lambda>g0. Inr (x < g0)))
                       (bind_r (coeff ?G 1) (\<lambda>g1. Inr (y < g1))))
             (or_else (Inr (length ?G = 2))
                      (bind_r (coeff ?G 2) (\<lambda>g2. Inr (z < g2))))"
  have nn: "0 \<le> x \<and> 0 \<le> y \<and> 0 \<le> z"
    using assms by (cases "0 \<le> x \<and> 0 \<le> y \<and> 0 \<le> z") (simp_all add: hash_def)
  then have "bind_r ?A (\<lambda>in_range.
             if \<not> in_range then Inl AssertionFailed
             else
               bind_r (coeff ?G 1) (\<lambda>g1.
               bind_r (coeff ?G 0) (\<lambda>g0.
                 Inr (wrap32 (wrap32 (wrap32 (wrap32 (z * g1) + y) * g0) + x))))) = Inr k"
    using assms by (simp add: hash_def)
  then obtain ok where A: "?A = Inr ok" and r: "(if \<not> ok then Inl AssertionFailed
             else
               bind_r (coeff ?G 1) (\<lambda>g1.
               bind_r (coeff ?G 0) (\<lambda>g0.
                 Inr (wrap32 (wrap32 (wrap32 (wrap32 (z * g1) + y) * g0) + x))))) = Inr k"
    unfolding bind_r_Inr_iff by blast
  have ok: ok using r by (cases ok) simp_all
  from A ok have 1: "0 < length ?G \<and> x < ?G ! 0" and 2: "1 < length ?G \<and> y < ?G ! 1"
    and 3: "length ?G = 2 \<or> 2 < length ?G \<and> z < ?G ! 2"
    by (auto simp add: and_also_True or_else_True bind_coeff_Inr)
  from r ok 1 2 have "k = wrap32 ((z * ?G ! 1 + y) * ?G ! 0 + x)"
    by (simp add: coeff_def hash_wraps)
  with nn 1 2 3 show ?thesis by auto
qed

lemma emplace_cell_Inr:
  assumes "emplace_cell g box ident x y z its = Inr its'"
  shows "\<exists>new. its' = its @ new \<and>
     (\<forall>h \<in> set new. item_id h = ident \<and> aabb h = box \<and>
        (\<exists>k. hash g x y z = Inr k \<and> key h = wrap32 k))"
  using assms by (auto simp: emplace_cell_def bind_r_Inr_iff)

lemma cwise_Inr: "cwise f a b = Inr r \<longleftrightarrow> length a = length b \<and> r = map2 f a b"
  by (auto simp: cwise_def)

lemma cell_of_length:
  assumes "cell_of g p = Inr c"
  shows "length c = length (m_gridSize g)"
proof -
  from assms obtain d where d: "cwise (-) p (m_domainMin g) = Inr d"
    and r: "(let c = map (\<lambda>t. cast_int (t / m_cellSize g)) d in
        if \<not> list_all (\<lambda>v. v \<ge> -1) c then Inl AssertionFailed
        else if length c \<noteq> length (m_gridSize g) then Inl SizeMismatch
        else if \<not> list_all2 (\<le>) c (m_gridSize g) then Inl AssertionFailed
        else cwise min (map (\<lambda>v. max v 0) c) (map (\<lambda>n. n - 1) (m_gridSize g))) = Inr c"
    unfolding cell_of_def bind_r_Inr_iff by blast
  let ?c = "map (\<lambda>t. cast_int (t / m_cellSize g)) d"
  have l: "length ?c = length (m_gridSize g)"
    using r by (cases "length ?c = length (m_gridSize g)") (simp_all add: Let_def split: if_splits)
  have "cwise min (map (\<lambda>v. max v 0) ?c) (map (\<lambda>n. n - 1) (m_gridSize g)) = Inr c"
    using r l by (simp add: Let_def split: if_splits)
  then show ?thesis using l by (simp add: cwise_Inr)
qed

lemma triple_loop_cells:
  assumes run: "for_each xs (\<lambda>x. for_each ys (\<lambda>y.
      for_each zs (\<lambda>z. emplace_cell g box ident x y z))) items = Inr items'"
  shows "\<exists>new. items' = items @ new \<and>
     (\<forall>h \<in> set new. item_id h = ident \<and> aabb h = box \<and>
        (\<exists>x y z k. z \<in> set zs \<and> hash g x y z = Inr k \<and> key h = wrap32 k))"
proof -
  define Q where "Q = (\<lambda>x y z (h::HashItem). item_id h = ident \<and> aabb h = box \<and>
        (\<exists>k. hash g x y z = Inr k \<and> key h = wrap32 k))"
  have zs: "\<exists>new. t' = t @ new \<and> (\<forall>h \<in> set new. \<exists>z \<in> set zs. Q x y z h)"
    if "for_each zs (\<lambda>z. emplace_cell g box ident x y z) t = Inr t'" for x y t t'
  proof (rule for_each_appends[where Q = "Q x y", OF _ that])
    fix z s s'
    assume "emplace_cell g box ident x y z s = Inr s'"
    from emplace_cell_Inr[OF this]
    show "\<exists>new. s' = s @ new \<and> (\<forall>h \<in> set new. Q x y z h)"
      unfolding Q_def .
  qed
  have ys: "\<exists>new. t' = t @ new \<and>
      (\<forall>h \<in> set new. \<exists>y \<in> set ys. \<exists>z \<in> set zs. Q x y z h)"
    if "for_each ys (\<lambda>y. for_each zs (\<lambda>z. emplace_cell g box ident x y z)) t = Inr t'"
    for x t t'
    by (rule for_each_appends[where Q = "\<lambda>y h. \<exists>z \<in> set zs. Q x y z h", OF _ that])
       (rule zs)
  have "\<exists>new. items' = items @ new \<and>
      (\<forall>h \<in> set new. \<exists>x \<in> set xs. \<exists>y \<in> set ys. \<exists>z \<in> set zs. Q x y z h)"
    by (rule for_each_appends[where
          Q = "\<lambda>x h. \<exists>y \<in> set ys. \<exists>z \<in> set zs. Q x y z h", OF _ run])
       (rule ys)
  then obtain new where n: "items' = items @ new"
    and q: "\<forall>h \<in> set new. \<exists>x \<in> set xs. \<exists>y \<in> set ys. \<exists>z \<in> set zs. Q x y z h"
    by blast
  have "\<forall>h \<in> set new. item_id h = ident \<and> aabb h = box \<and>
        (\<exists>x y z k. z \<in> set zs \<and> hash g x y z = Inr k \<and> key h = wrap32 k)"
  proof
    fix h assume "h \<in> set new"
    with q obtain x y z where "z \<in> set zs" "Q x y z h" by blast
    then show "item_id h = ident \<and> aabb h = box \<and>
        (\<exists>x y z k. z \<in> set zs \<and> hash g x y z = Inr k \<and> key h = wrap32 k)"
      unfolding Q_def by blast
  qed
  with n show ?thesis by blast
qed

lemma addElement_Inr:
  assumes "addElement g box ident items = Inr items'"
  shows "\<exists>int_min int_max. cell_of g (aabb_min box) = Inr int_min \<and>
     cell_of g (aabb_max box) = Inr int_max \<and> length int_min = length int_max \<and>
     for_each [int_min ! 0..int_max ! 0] (\<lambda>x.
       for_each [int_min ! 1..int_max ! 1] (\<lambda>y.
         for_each [(if length int_min = 3 then int_min ! 2 else 0)..
                   (if length int_max = 3 then int_max ! 2 else 0)]
           (\<lambda>z. emplace_cell g box ident x y z))) items = Inr items'"
  using assms unfolding addElement_def
  by (auto simp: bind_r_Inr_iff coeff_def split: if_splits)

lemma addElement_cells:
  assumes "addElement g box ident items = Inr items'"
  shows "\<exists>new. items' = items @ new \<and>
     (\<forall>h \<in> set new. item_id h = ident \<and> aabb h = box \<and>
        (\<exists>x y z k. hash g x y z = Inr k \<and> key h = wrap32 k \<and>
           (length (m_gridSize g) = 3 \<or> z = 0)))"
proof -
  from addElement_Inr[OF assms] obtain int_min int_max where
    c: "cell_of g (aabb_min box) = Inr int_min" and l: "length int_min = length int_max"
    and run: "for_each [int_min ! 0..int_max ! 0] (\<lambda>x.
       for_each [int_min ! 1..int_max ! 1] (\<lambda>y.
         for_each [(if length int_min = 3 then int_min ! 2 else 0)..
                   (if length int_max = 3 then int_max ! 2 else 0)]
           (\<lambda>z. emplace_cell g box ident x y z))) items = Inr items'"
    by blast
  have lg: "length int_min = length (m_gridSize g)" by (rule cell_of_length[OF c])
  have zr: "length (m_gridSize g) = 3 \<or> z = 0"
    if "z \<in> set [(if length int_min = 3 then int_min ! 2 else 0)..
                   (if length int_max = 3 then int_max ! 2 else 0)]" for z
    using that l lg by (cases "length int_min = 3") auto
  from triple_loop_cells[OF run] obtain new where n: "items' = items @ new"
    and p: "\<forall>h \<in> set new. item_id h = ident \<and> aabb h = box \<and>
        (\<exists>x y z k. z \<in> set [(if length int_min = 3 then int_min ! 2 else 0)..
                   (if length int_max = 3 then int_max ! 2 else 0)] \<and>
           hash g x y z = Inr k \<and> key h = wrap32 k)"
    by blast
  have "\<forall>h \<in> set new. item_id h = ident \<and> aabb h = box \<and>
        (\<exists>x y z k. hash g x y z = Inr k \<and> key h = wrap32 k \<and>
           (length (m_gridSize g) = 3 \<or> z = 0))"
  proof
    fix h assume "h \<in> set new"
    with p obtain x y z k where "item_id h = ident" "aabb h = box"
      "z \<in> set [(if length int_min = 3 then int_min ! 2 else 0)..
                   (if length int_max = 3 then int_max ! 2 else 0)]"
      "hash g x y z = Inr k" "key h = wrap32 k"
      by blast
    then show "item_id h = ident \<and> aabb h = box \<and>
        (\<exists>x y z k. hash g x y z = Inr k \<and> key h = wrap32 k \<and>
           (length (m_gridSize g) = 3 \<or> z = 0))"
      using zr by blast
  qed
  with n show ?thesis by blast
qed

lemma keys_exact_iff:
  assumes len: "length (m_gridSize g) = 2 \<or> length (m_gridSize g) = 3"
    and pos: "list_all (\<lambda>n. 1 \<le> n) (m_gridSize g)"
  shows "keys_exact g \<longleftrightarrow> cell_count (m_gridSize g) \<le> 2 ^ 31"
proof
  let ?G = "m_gridSize g"
  assume le: "cell_count ?G \<le> 2 ^ 31"
  show "keys_exact g"
    unfolding keys_exact_def
  proof (intro allI impI)
    fix x y z box ident
    assume c: "cell_in_grid ?G x y z"
    have "- (2 ^ 31) \<le> (z * ?G ! 1 + y) * ?G ! 0 + x" "(z * ?G ! 1 + y) * ?G ! 0 + x < 2 ^ 31"
      using cell_value_bounds[OF c] le by simp_all
    then have "wrap32 ((z * ?G ! 1 + y) * ?G ! 0 + x) = (z * ?G ! 1 + y) * ?G ! 0 + x"
      by (rule wrap32_id)
    then show "emplace_cell g box ident x y z [] =
          Inr [\<lparr>key = (z * ?G ! 1 + y) * ?G ! 0 + x, item_id = ident, aabb = box\<rparr>]"
      unfolding emplace_cell_def hash_exact[OF c le] by simp
  qed
next
  let ?G = "m_gridSize g"
  define g0 where "g0 = ?G ! 0"
  define g1 where "g1 = ?G ! 1"
  define g2 where "g2 = (if length ?G = 3 then ?G ! 2 else 1)"
  assume ex: "keys_exact g"
  have p: "1 \<le> g0" "1 \<le> g1" "1 \<le> g2"
    using len pos by (auto simp: list_all_length g0_def g1_def g2_def)
  have c: "cell_in_grid ?G (g0 - 1) (g1 - 1) (g2 - 1)"
    unfolding cell_in_grid_def using len p by (simp add: g0_def g1_def g2_def)
  have v: "((g2 - 1) * g1 + (g1 - 1)) * g0 + (g0 - 1) = cell_count ?G - 1"
    by (simp add: cell_count_def g0_def g1_def g2_def algebra_simps)
  from ex c have "emplace_cell g undefined 0 (g0 - 1) (g1 - 1) (g2 - 1) [] =
     Inr [\<lparr>key = ((g2 - 1) * g1 + (g1 - 1)) * g0 + (g0 - 1), item_id = 0, aabb = undefined\<rparr>]"
    unfolding keys_exact_def g0_def g1_def by blast
  then obtain k where "wrap32 k = cell_count ?G - 1"
    unfolding v by (auto simp: emplace_cell_def bind_r_Inr_iff)
  then show "cell_count ?G \<le> 2 ^ 31" using wrap32_range[of k] by simp
qed

text \<open>Claim C10 (key width), amended. Every item that \<open>addElement\<close> appends stores, for a
  cell \<open>(x, y, z)\<close> of the grid, the key \<open>(z * Gy + y) * Gx + x\<close> reduced modulo \<open>2 ^ 32\<close>
  into the signed range; and on a grid with at least one cell on every axis the stored
  keys are exact for all cells if and only if the grid has at most \<open>2 ^ 31\<close> cells.\<close>

theorem stored_key_width:
  assumes "length (m_gridSize g) = 2 \<or> length (m_gridSize g) = 3"
  shows "(addElement g box ident items = Inr items' \<longrightarrow>
           (\<exists>new. items' = items @ new \<and>
              (\<forall>h \<in> set new. \<exists>x y z. cell_in_grid (m_gridSize g) x y z \<and>
                 key h = wrap32 ((z * m_gridSize g ! 1 + y) * m_gridSize g ! 0 + x)))) \<and>
         (list_all (\<lambda>n. 1 \<le> n) (m_gridSize g) \<longrightarrow>
           (keys_exact g \<longleftrightarrow> cell_count (m_gridSize g) \<le> 2 ^ 31))"
proof (intro conjI impI)
  let ?G = "m_gridSize g"
  assume "addElement g box ident items = Inr items'"
  from addElement_cells[OF this] obtain new where n: "items' = items @ new"
    and p: "\<forall>h \<in> set new. item_id h = ident \<and> aabb h = box \<and>
        (\<exists>x y z k. hash g x y z = Inr k \<and> key h = wrap32 k \<and> (length ?G = 3 \<or> z = 0))"
    by blast
  have "\<forall>h \<in> set new. \<exists>x y z. cell_in_grid ?G x y z \<and>
                 key h = wrap32 ((z * ?G ! 1 + y) * ?G ! 0 + x)"
  proof
    fix h assume "h \<in> set new"
    with p obtain x y z k where h: "hash g x y z = Inr k" and k: "key h = wrap32 k"
      and z: "length ?G = 3 \<or> z = 0"
      by blast
    from hash_Inr[OF h] have b: "0 \<le> x" "x < ?G ! 0" "0 \<le> y" "y < ?G ! 1" "0 \<le> z"
      "length ?G = 2 \<or> 3 \<le> length ?G \<and> z < ?G ! 2"
      and v: "k = wrap32 ((z * ?G ! 1 + y) * ?G ! 0 + x)"
      by blast+
    have "cell_in_grid ?G x y z"
      unfolding cell_in_grid_def using assms b z by auto
    moreover have "key h = wrap32 ((z * ?G ! 1 + y) * ?G ! 0 + x)"
      unfolding k v by (rule wrap32_idem)
    ultimately show "\<exists>x y z. cell_in_grid ?G x y z \<and>
                 key h = wrap32 ((z * ?G ! 1 + y) * ?G ! 0 + x)"
      by blast
  qed
  with n show "\<exists>new. items' = items @ new \<and>
              (\<forall>h \<in> set new. \<exists>x y z. cell_in_grid ?G x y z \<and>
                 key h = wrap32 ((z * ?G ! 1 + y) * ?G ! 0 + x))"
    by blast
next
  assume "list_all (\<lambda>n. 1 \<le> n) (m_gridSize g)"
  with assms show "keys_exact g \<longleftrightarrow> cell_count (m_gridSize g) \<le> 2 ^ 31"
    by (rule keys_exact_iff)
qed

lemma ex3_gridSize: "m_gridSize ex3_grid = [2, 2, 2]"
  by code_simp

text \<open>C10 on the example grid, for a box that covers four cells.\<close>

theorem stored_key_width_witness:
  "keys_exact ex3_grid \<and>
   (\<exists>new. addElement ex3_grid ex_box 7 [] = Inr new \<and> map key new = [0, 4, 1, 5] \<and>
      (\<forall>h \<in> set new. \<exists>x y z. cell_in_grid [2, 2, 2] x y z \<and>
          key h = wrap32 ((z * 2 + y) * 2 + x)))"
proof -
  have l: "length (m_gridSize ex3_grid) = 2 \<or> length (m_gridSize ex3_grid) = 3"
    by (simp add: ex3_gridSize)
  have p: "list_all (\<lambda>n. 1 \<le> n) (m_gridSize ex3_grid)" by (simp add: ex3_gridSize)
  have c: "cell_count (m_gridSize ex3_grid) \<le> 2 ^ 31"
    by (simp add: ex3_gridSize cell_count_def)
  have e: "\<not> isl (addElement ex3_grid ex_box 7 [])" by code_simp
  then obtain new where a: "addElement ex3_grid ex_box 7 [] = Inr new"
    by (cases "addElement ex3_grid ex_box 7 []") auto
  have "map_sum id (map key) (addElement ex3_grid ex_box 7 []) = Inr [0, 4, 1, 5]"
    by code_simp
  then have k: "map key new = [0, 4, 1, 5]" by (simp add: a)
  from stored_key_width[OF l, of ex_box 7 "[]" new] a p c k show ?thesis
    by (simp add: ex3_gridSize)
qed

lemma grid_2_31_eq:
  "resize new_grid [0, 0] [65536, 32768] 1 = Inr grid_2_31 \<and>
   m_gridSize grid_2_31 = [65536, 32768]"
  by code_simp

text \<open>C10 as stated fails at the bound: a grid of 65536 x 32768 cells has \<open>2 ^ 31\<close> cells,
  more than \<open>2 ^ 31 - 1\<close>, and all its stored keys are exact.\<close>

theorem stored_key_width_counterexample:
  "resize new_grid [0, 0] [65536, 32768] 1 = Inr grid_2_31 \<and>
   keys_exact grid_2_31 \<and> \<not> cell_count (m_gridSize grid_2_31) \<le> 2 ^ 31 - 1"
proof -
  have g: "m_gridSize grid_2_31 = [65536, 32768]" using grid_2_31_eq by blast
  have "keys_exact grid_2_31 \<longleftrightarrow> cell_count (m_gridSize grid_2_31) \<le> 2 ^ 31"
    by (rule keys_exact_iff) (simp_all add: g)
  then have "keys_exact grid_2_31" by (simp add: g cell_count_def)
  moreover have "\<not> cell_count (m_gridSize grid_2_31) \<le> 2 ^ 31 - 1"
    by (simp add: g cell_count_def)
  ultimately show ?thesis using grid_2_31_eq by blast
qed






text \<open>On an axis whose quotient does not fit \<open>int\<close> the recorded grid size is not the
  quotient: the cast gives \<open>INT_MIN\<close> and the maximum with 1 is 1.\<close>

lemma resize_beyond_int:
  "resize new_grid [0, 0] [10000000000, 1] 1 =
     Inr (new_grid\<lparr>m_cellSize := 1, m_gridSize := [1, 1], m_domainMin := [0, 0],
           m_domainMax := [10000000000, 1]\<rparr>)"
  by code_simp

subsection \<open>addVerticesFromEdges\<close>

lemma for_each_append:
  "for_each (xs @ ys) body s = bind_r (for_each xs body s) (for_each ys body)"
proof (induction xs arbitrary: s)
  case Nil
  then show ?case by simp
next
  case (Cons a xs)
  show ?case by (cases "body a s") (simp_all add: Cons.IH)
qed

lemma for_each_map: "for_each (map h xs) body s = for_each xs (\<lambda>x. body (h x)) s"
proof (induction xs arbitrary: s)
  case Nil
  then show ?case by simp
next
  case (Cons a xs)
  show ?case by (cases "body (h a) s") (simp_all add: Cons.IH)
qed

lemma for_each_nested:
  "for_each xs (\<lambda>x. for_each ys (body x)) s =
     for_each (List.product xs ys) (\<lambda>(x, y). body x y) s"
proof (induction xs arbitrary: s)
  case Nil
  then show ?case by simp
next
  case (Cons a xs)
  show ?case
    by (cases "for_each ys (body a) s") (simp_all add: for_each_append for_each_map Cons.IH)
qed

lemma for_each_cong:
  "(\<And>x s. x \<in> set xs \<Longrightarrow> f x s = h x s) \<Longrightarrow> for_each xs f s = for_each xs h s"
proof (induction xs arbitrary: s)
  case Nil
  then show ?case by simp
next
  case (Cons a xs)
  have "f a s = h a s" by (rule Cons.prems) simp
  moreover have "for_each xs f t = for_each xs h t" for t
    by (rule Cons.IH) (rule Cons.prems, simp)
  ultimately show ?case by (cases "h a s") simp_all
qed

lemma at_i_nat: "k < length v \<Longrightarrow> at_i v (int k) = Inr (v ! k)"
  by (simp add: at_i_def)

lemma at_i_in: "0 \<le> i \<Longrightarrow> i < int (length v) \<Longrightarrow> at_i v i = Inr (v ! nat i)"
  by (simp add: at_i_def)

lemma mat_at_nat:
  "i < length m \<Longrightarrow> j < length (m ! i) \<Longrightarrow> mat_at m (int i) (int j) = Inr (m ! i ! j)"
  by (simp add: mat_at_def at_i_nat)

lemma min_edge_pass_product:
  "min_edge_pass edges vt =
     for_each (List.product [0..<cols edges] [0..<rows edges]) (lower_step edges) vt"
  unfolding min_edge_pass_def lower_step_def by (rule for_each_nested)

lemma lower_step_in_range:
  assumes "in_range edges (length vt) (ej, ei)"
  shows "lower_step edges (ej, ei) vt =
     Inr (vt[nat (edges ! ei ! ej) := min (vt ! nat (edges ! ei ! ej)) ei])"
  using assms by (simp add: lower_step_def in_range_def mat_at_nat at_i_in)

lemma lower_pass:
  assumes "\<forall>p \<in> set ps. in_range edges (length vt) p"
  shows "\<exists>vt'. for_each ps (lower_step edges) vt = Inr vt' \<and> length vt' = length vt \<and>
     (\<forall>v < length vt. vt' ! v \<le> vt ! v \<and>
        (\<forall>(ej, ei) \<in> set ps. edges ! ei ! ej = int v \<longrightarrow> vt' ! v \<le> ei) \<and>
        (vt' ! v = vt ! v \<or> (\<exists>(ej, ei) \<in> set ps. edges ! ei ! ej = int v \<and> vt' ! v = ei)))"
  using assms
proof (induction ps arbitrary: vt)
  case Nil
  then show ?case by simp
next
  case (Cons p ps)
  obtain ej ei where p: "p = (ej, ei)" by (cases p)
  let ?v0 = "nat (edges ! ei ! ej)"
  let ?vt1 = "vt[?v0 := min (vt ! ?v0) ei]"
  have r0: "in_range edges (length vt) (ej, ei)" using Cons.prems p by simp
  have s1: "lower_step edges p vt = Inr ?vt1" unfolding p by (rule lower_step_in_range[OF r0])
  have v0: "?v0 < length vt" "edges ! ei ! ej = int ?v0"
    using r0 by (auto simp: in_range_def)
  have "\<forall>q \<in> set ps. in_range edges (length ?vt1) q" using Cons.prems by simp
  from Cons.IH[OF this] obtain vt' where
    run: "for_each ps (lower_step edges) ?vt1 = Inr vt'" and len: "length vt' = length vt"
    and ih: "\<forall>v < length vt. vt' ! v \<le> ?vt1 ! v \<and>
        (\<forall>(ej, ei) \<in> set ps. edges ! ei ! ej = int v \<longrightarrow> vt' ! v \<le> ei) \<and>
        (vt' ! v = ?vt1 ! v \<or> (\<exists>(ej, ei) \<in> set ps. edges ! ei ! ej = int v \<and> vt' ! v = ei))"
    by auto
  have "vt' ! v \<le> vt ! v \<and>
        (\<forall>(ej, ei) \<in> set (p # ps). edges ! ei ! ej = int v \<longrightarrow> vt' ! v \<le> ei) \<and>
        (vt' ! v = vt ! v \<or>
          (\<exists>(ej, ei) \<in> set (p # ps). edges ! ei ! ej = int v \<and> vt' ! v = ei))"
    if v: "v < length vt" for v
  proof (cases "v = ?v0")
    case True
    have a: "?vt1 ! v = min (vt ! v) ei" using v True by simp
    from ih v have b: "vt' ! v \<le> ?vt1 ! v"
      and c: "\<forall>(ej, ei) \<in> set ps. edges ! ei ! ej = int v \<longrightarrow> vt' ! v \<le> ei"
      and d: "vt' ! v = ?vt1 ! v \<or> (\<exists>(ej, ei) \<in> set ps. edges ! ei ! ej = int v \<and> vt' ! v = ei)"
      by blast+
    have 1: "vt' ! v \<le> vt ! v" using a b by simp
    have 2: "\<forall>(ej, ei) \<in> set (p # ps). edges ! ei ! ej = int v \<longrightarrow> vt' ! v \<le> ei"
      using a b c p by auto
    have 3: "vt' ! v = vt ! v \<or>
          (\<exists>(ej, ei) \<in> set (p # ps). edges ! ei ! ej = int v \<and> vt' ! v = ei)"
    proof (cases "vt' ! v = ?vt1 ! v")
      case False
      with d show ?thesis by auto
    next
      case eq: True
      show ?thesis
      proof (cases "vt ! v \<le> ei")
        case True
        then show ?thesis using eq a by (simp add: min_def)
      next
        case False
        then have "vt' ! v = ei" using eq a by (simp add: min_def)
        then show ?thesis using p v0(2) True by auto
      qed
    qed
    from 1 2 3 show ?thesis by blast
  next
    case False
    have a: "?vt1 ! v = vt ! v" using False by simp
    have np: "edges ! ei ! ej \<noteq> int v" using False v0(2) by simp
    from ih v a have b: "vt' ! v \<le> vt ! v"
      and c: "\<forall>(ej, ei) \<in> set ps. edges ! ei ! ej = int v \<longrightarrow> vt' ! v \<le> ei"
      and d: "vt' ! v = vt ! v \<or> (\<exists>(ej, ei) \<in> set ps. edges ! ei ! ej = int v \<and> vt' ! v = ei)"
      by auto
    have 2: "\<forall>(ej, ei) \<in> set (p # ps). edges ! ei ! ej = int v \<longrightarrow> vt' ! v \<le> ei"
      using c np p by auto
    have 3: "vt' ! v = vt ! v \<or>
          (\<exists>(ej, ei) \<in> set (p # ps). edges ! ei ! ej = int v \<and> vt' ! v = ei)"
      using d by auto
    from b 2 3 show ?thesis by blast
  qed
  then show ?case using run len s1 by simp
qed

lemma min_edge_visit_product:
  "min_edge_visit edges vtme visit s =
     for_each (List.product [0..<rows edges] [0..<cols edges]) (visit_step edges vtme visit) s"
  unfolding min_edge_visit_def visit_step_def by (rule for_each_nested)

lemma visit_steps:
  assumes "\<forall>(ei, ej) \<in> set ps. in_range edges (length vtme) (ej, ei)"
  shows "for_each ps (visit_step edges vtme visit) s =
     for_each (map (\<lambda>(ei, ej). edges ! ei ! ej)
                (filter (\<lambda>(ei, ej). vtme ! nat (edges ! ei ! ej) = ei) ps)) visit s"
  using assms
proof (induction ps arbitrary: s)
  case Nil
  then show ?case by simp
next
  case (Cons p ps)
  obtain ei ej where p: "p = (ei, ej)" by (cases p)
  have r0: "in_range edges (length vtme) (ej, ei)" using Cons.prems p by simp
  have st: "visit_step edges vtme visit p s =
      (if vtme ! nat (edges ! ei ! ej) = ei then visit (edges ! ei ! ej) s else Inr s)"
    using r0 unfolding p by (simp add: visit_step_def in_range_def mat_at_nat at_i_in)
  have ih: "for_each ps (visit_step edges vtme visit) t =
     for_each (map (\<lambda>(ei, ej). edges ! ei ! ej)
                (filter (\<lambda>(ei, ej). vtme ! nat (edges ! ei ! ej) = ei) ps)) visit t" for t
    by (rule Cons.IH) (use Cons.prems in simp)
  show ?case
  proof (cases "vtme ! nat (edges ! ei ! ej) = ei")
    case True
    then show ?thesis
      using st ih by (cases "visit (edges ! ei ! ej) s") (simp_all add: p)
  next
    case False
    then show ?thesis using st ih by (simp add: p)
  qed
qed

lemma wf_edges_in_range:
  assumes "wf_edges n edges" "ei < rows edges" "ej < cols edges"
  shows "in_range edges n (ej, ei)"
proof -
  have r: "edges ! ei \<in> set edges" using assms(2) by (simp add: rows_def)
  with assms(1) have l: "length (edges ! ei) = cols edges"
    and b: "list_all (\<lambda>v. 0 \<le> v \<and> v < int n) (edges ! ei)"
    by (auto simp: wf_edges_def list_all_iff)
  from b l assms(3) have "0 \<le> edges ! ei ! ej \<and> edges ! ei ! ej < int n"
    by (simp add: list_all_length)
  then show ?thesis using assms(2,3) l by (simp add: in_range_def rows_def)
qed

lemma wf_edges_distinct:
  "wf_edges n edges \<Longrightarrow> ei < rows edges \<Longrightarrow> distinct (edges ! ei)"
  by (auto simp: wf_edges_def list_all_length rows_def)

lemma wf_edges_length:
  "wf_edges n edges \<Longrightarrow> ei < rows edges \<Longrightarrow> length (edges ! ei) = cols edges"
  by (auto simp: wf_edges_def list_all_length rows_def)

lemma referenced_iff:
  assumes "wf_edges n edges"
  shows "v \<in> set (concat edges) \<longleftrightarrow>
     (\<exists>ei < rows edges. \<exists>ej < cols edges. edges ! ei ! ej = v)"
proof
  assume "v \<in> set (concat edges)"
  then obtain row where r: "row \<in> set edges" "v \<in> set row" by auto
  then obtain ei where ei: "ei < length edges" "edges ! ei = row" by (auto simp: in_set_conv_nth)
  from r(2) obtain ej where ej: "ej < length row" "row ! ej = v" by (auto simp: in_set_conv_nth)
  have "length row = cols edges" using wf_edges_length[OF assms, of ei] ei by (simp add: rows_def)
  then show "\<exists>ei < rows edges. \<exists>ej < cols edges. edges ! ei ! ej = v"
    using ei ej by (auto simp: rows_def)
next
  assume "\<exists>ei < rows edges. \<exists>ej < cols edges. edges ! ei ! ej = v"
  then obtain ei ej where e: "ei < rows edges" "ej < cols edges" "edges ! ei ! ej = v" by blast
  have "ej < length (edges ! ei)" using wf_edges_length[OF assms e(1)] e(2) by simp
  then have "v \<in> set (edges ! ei)" using e(3) by (auto simp: in_set_conv_nth)
  moreover have "edges ! ei \<in> set edges" using e(1) by (simp add: rows_def)
  ultimately show "v \<in> set (concat edges)" by auto
qed

lemma min_edge_pass_result:
  assumes wf: "wf_edges n edges"
  shows "\<exists>vtme. min_edge_pass edges (replicate n (rows edges + 1)) = Inr vtme \<and>
     length vtme = n \<and>
     (\<forall>v \<in> set (concat edges).
        vtme ! nat v = Min {ei. ei < rows edges \<and> v \<in> set (edges ! ei)} \<and>
        vtme ! nat v < rows edges \<and> v \<in> set (edges ! (vtme ! nat v)))"
proof -
  let ?ps = "List.product [0..<cols edges] [0..<rows edges]"
  let ?vt0 = "replicate n (rows edges + 1)"
  have "\<forall>p \<in> set ?ps. in_range edges (length ?vt0) p"
    using wf_edges_in_range[OF wf] by auto
  from lower_pass[OF this] obtain vtme where
    run: "for_each ?ps (lower_step edges) ?vt0 = Inr vtme" and len: "length vtme = n"
    and pr: "\<forall>v < n. vtme ! v \<le> ?vt0 ! v \<and>
        (\<forall>(ej, ei) \<in> set ?ps. edges ! ei ! ej = int v \<longrightarrow> vtme ! v \<le> ei) \<and>
        (vtme ! v = ?vt0 ! v \<or> (\<exists>(ej, ei) \<in> set ?ps. edges ! ei ! ej = int v \<and> vtme ! v = ei))"
    by auto
  have "vtme ! nat v = Min {ei. ei < rows edges \<and> v \<in> set (edges ! ei)} \<and>
        vtme ! nat v < rows edges \<and> v \<in> set (edges ! (vtme ! nat v))"
    if "v \<in> set (concat edges)" for v
  proof -
    let ?S = "{ei. ei < rows edges \<and> v \<in> set (edges ! ei)}"
    from that obtain ei0 ej0 where e0: "ei0 < rows edges" "ej0 < cols edges"
      "edges ! ei0 ! ej0 = v"
      using referenced_iff[OF wf] by blast
    have "in_range edges n (ej0, ei0)" by (rule wf_edges_in_range[OF wf e0(1,2)])
    then have v: "0 \<le> v" "nat v < n" "v = int (nat v)"
      using e0(3) by (auto simp: in_range_def)
    from pr v(2) have
      le: "\<forall>(ej, ei) \<in> set ?ps. edges ! ei ! ej = int (nat v) \<longrightarrow> vtme ! nat v \<le> ei"
      and opt: "vtme ! nat v = ?vt0 ! nat v \<or>
          (\<exists>(ej, ei) \<in> set ?ps. edges ! ei ! ej = int (nat v) \<and> vtme ! nat v = ei)"
      by blast+
    have lb: "vtme ! nat v \<le> ei" if "ei \<in> ?S" for ei
    proof -
      from that have r: "ei < rows edges" and m: "v \<in> set (edges ! ei)" by auto
      from m obtain ej where "ej < length (edges ! ei)" "edges ! ei ! ej = v"
        by (auto simp: in_set_conv_nth)
      then have "(ej, ei) \<in> set ?ps" "edges ! ei ! ej = int (nat v)"
        using wf_edges_length[OF wf r] r v(3) by auto
      with le show ?thesis by blast
    qed
    have "ei0 \<in> ?S"
      using e0 wf_edges_length[OF wf e0(1)] by (auto simp: in_set_conv_nth)
    then have "vtme ! nat v \<le> ei0" by (rule lb)
    then have "vtme ! nat v \<noteq> ?vt0 ! nat v" using e0(1) v(2) by simp
    with opt obtain ej ei where "(ej, ei) \<in> set ?ps" "edges ! ei ! ej = int (nat v)"
      "vtme ! nat v = ei"
      by blast
    then have mem: "vtme ! nat v \<in> ?S"
      using v(3) wf_edges_length[OF wf, of ei] by (auto simp: in_set_conv_nth)
    have fin: "finite ?S" by simp
    have "Min ?S = vtme ! nat v"
      by (rule Min_eqI[OF fin]) (use lb mem in auto)
    then show ?thesis using mem by simp
  qed
  then show ?thesis using run len by (auto simp: min_edge_pass_product)
qed

lemma selected_visit:
  assumes wf: "wf_edges (length vtme) edges"
  shows "min_edge_visit edges vtme visit s = for_each (selected edges vtme) visit s"
  unfolding min_edge_visit_product selected_def
  by (rule visit_steps) (use wf_edges_in_range[OF wf] in auto)

lemma selected_set:
  assumes wf: "wf_edges n edges"
    and vt: "\<forall>v \<in> set (concat edges). vtme ! nat v < rows edges \<and> v \<in> set (edges ! (vtme ! nat v))"
  shows "set (selected edges vtme) = set (concat edges)"
proof (intro set_eqI iffI)
  fix v assume "v \<in> set (selected edges vtme)"
  then obtain ei ej where "ei < rows edges" "ej < cols edges" "edges ! ei ! ej = v"
    by (auto simp: selected_def)
  then show "v \<in> set (concat edges)" using referenced_iff[OF wf] by blast
next
  fix v assume r: "v \<in> set (concat edges)"
  let ?m = "vtme ! nat v"
  from vt r have m: "?m < rows edges" "v \<in> set (edges ! ?m)" by blast+
  from m(2) obtain ej where ej: "ej < length (edges ! ?m)" "edges ! ?m ! ej = v"
    by (auto simp: in_set_conv_nth)
  have "ej < cols edges" using ej(1) wf_edges_length[OF wf m(1)] by simp
  then have "(?m, ej) \<in> set (filter (\<lambda>(ei, ej). vtme ! nat (edges ! ei ! ej) = ei)
          (List.product [0..<rows edges] [0..<cols edges]))"
    using m(1) ej(2) by simp
  then have "(\<lambda>(ei, ej). edges ! ei ! ej) (?m, ej) \<in> set (selected edges vtme)"
    unfolding selected_def set_map by (rule imageI)
  then show "v \<in> set (selected edges vtme)" using ej(2) by simp
qed

lemma selected_distinct:
  assumes wf: "wf_edges n edges"
  shows "distinct (selected edges vtme)"
  unfolding selected_def
proof (rule distinct_map[THEN iffD2], intro conjI)
  show "distinct (filter (\<lambda>(ei, ej). vtme ! nat (edges ! ei ! ej) = ei)
          (List.product [0..<rows edges] [0..<cols edges]))"
    by (simp add: distinct_product)
  show "inj_on (\<lambda>(ei, ej). edges ! ei ! ej)
     (set (filter (\<lambda>(ei, ej). vtme ! nat (edges ! ei ! ej) = ei)
          (List.product [0..<rows edges] [0..<cols edges])))"
  proof (rule inj_onI)
    fix p q
    assume p: "p \<in> set (filter (\<lambda>(ei, ej). vtme ! nat (edges ! ei ! ej) = ei)
          (List.product [0..<rows edges] [0..<cols edges]))"
      and q: "q \<in> set (filter (\<lambda>(ei, ej). vtme ! nat (edges ! ei ! ej) = ei)
          (List.product [0..<rows edges] [0..<cols edges]))"
      and e: "(case p of (ei, ej) \<Rightarrow> edges ! ei ! ej) = (case q of (ei, ej) \<Rightarrow> edges ! ei ! ej)"
    obtain a b where pp: "p = (a, b)" by (cases p)
    obtain c d where qq: "q = (c, d)" by (cases q)
    from p pp have 1: "a < rows edges" "b < cols edges" "vtme ! nat (edges ! a ! b) = a" by auto
    from q qq have 2: "c < rows edges" "d < cols edges" "vtme ! nat (edges ! c ! d) = c" by auto
    from e pp qq have 3: "edges ! a ! b = edges ! c ! d" by simp
    have ac: "a = c" using 1(3) 2(3) 3 by simp
    have "b < length (edges ! a)" "d < length (edges ! a)"
      using 1 2 ac wf_edges_length[OF wf 1(1)] by simp_all
    moreover have "distinct (edges ! a)" by (rule wf_edges_distinct[OF wf 1(1)])
    ultimately have "b = d" using 3 ac by (simp add: nth_eq_iff_index_eq)
    with ac show "p = q" by (simp add: pp qq)
  qed
qed

text \<open>Claim C5, amended. For position matrices of equal row counts and an edge matrix whose
  rows hold distinct vertex indices, all of them rows of the position matrices, the first
  loop computes \<open>vertex_to_min_edge[v] = min {i. v in E[i]}\<close> for every referenced vertex,
  and \<open>addVerticesFromEdges\<close> is one \<open>addVertex\<close> call for each element of a duplicate-free
  list of exactly the referenced vertices, its items appended to the vertex bucket.\<close>

theorem addVerticesFromEdges_once:
  assumes "rows vertices_t0 = rows vertices_t1"
    and "list_all (\<lambda>row. length row = cols edges \<and> distinct row \<and>
            list_all (\<lambda>v. 0 \<le> v \<and> v < int (rows vertices_t0)) row) edges"
  shows "\<exists>vertex_to_min_edge calls.
     min_edge_pass edges (replicate (rows vertices_t0) (rows edges + 1)) =
       Inr vertex_to_min_edge \<and>
     (\<forall>v \<in> set (concat edges).
        vertex_to_min_edge ! nat v = Min {ei. ei < rows edges \<and> v \<in> set (edges ! ei)}) \<and>
     distinct calls \<and> set calls = set (concat edges) \<and>
     addVerticesFromEdges g vertices_t0 vertices_t1 edges inflation_radius =
       bind_r
         (for_each calls (\<lambda>vi local_items.
            addVertex g (vertices_t0 ! nat vi) (vertices_t1 ! nat vi) vi local_items
              inflation_radius) [])
         (\<lambda>storage. Inr (g\<lparr>m_vertexItems := m_vertexItems g @ storage\<rparr>))"
proof -
  let ?n = "rows vertices_t0"
  have wf: "wf_edges ?n edges" using assms(2) by (simp add: wf_edges_def)
  from min_edge_pass_result[OF wf] obtain vtme where
    p1: "min_edge_pass edges (replicate ?n (rows edges + 1)) = Inr vtme"
    and len: "length vtme = ?n"
    and pr: "\<forall>v \<in> set (concat edges).
        vtme ! nat v = Min {ei. ei < rows edges \<and> v \<in> set (edges ! ei)} \<and>
        vtme ! nat v < rows edges \<and> v \<in> set (edges ! (vtme ! nat v))"
    by blast
  let ?calls = "selected edges vtme"
  have wf': "wf_edges (length vtme) edges" using wf len by simp
  have d: "distinct ?calls" by (rule selected_distinct[OF wf])
  have s: "set ?calls = set (concat edges)" by (rule selected_set[OF wf]) (use pr in blast)
  have rng: "0 \<le> vi \<and> vi < int ?n" if "vi \<in> set ?calls" for vi
  proof -
    from that s obtain ei ej where e: "ei < rows edges" "ej < cols edges" "edges ! ei ! ej = vi"
      using referenced_iff[OF wf] by blast
    from wf_edges_in_range[OF wf e(1,2)] e(3) show ?thesis by (simp add: in_range_def)
  qed
  let ?visit = "\<lambda>vi local_items.
             bind_r (at_i vertices_t0 vi) (\<lambda>p0.
             bind_r (at_i vertices_t1 vi) (\<lambda>p1.
               addVertex g p0 p1 vi local_items inflation_radius))"
  have v: "for_each ?calls ?visit [] =
      for_each ?calls (\<lambda>vi local_items.
            addVertex g (vertices_t0 ! nat vi) (vertices_t1 ! nat vi) vi local_items
              inflation_radius) []"
  proof (rule for_each_cong)
    fix vi t assume "vi \<in> set ?calls"
    from rng[OF this] assms(1)
    show "?visit vi t =
        addVertex g (vertices_t0 ! nat vi) (vertices_t1 ! nat vi) vi t inflation_radius"
      by (simp add: at_i_in rows_def)
  qed
  have "addVerticesFromEdges g vertices_t0 vertices_t1 edges inflation_radius =
       bind_r (for_each ?calls ?visit [])
         (\<lambda>storage. Inr (g\<lparr>m_vertexItems := m_vertexItems g @ storage\<rparr>))"
    unfolding addVerticesFromEdges_def
    using assms(1) p1 by (simp add: selected_visit[OF wf'] merge_local_items_def)
  then show ?thesis using p1 pr d s unfolding v by blast
qed

text \<open>C5 on the edges of the 3D example: seven referenced vertices, seven calls.\<close>

theorem addVerticesFromEdges_once_witness:
  "resize new_grid [0, 0, 0] [2, 2, 2] 1 = Inr ex3_empty \<and>
   (\<exists>calls. distinct calls \<and> set calls = {0, 1, 2, 3, 4, 5, 6} \<and>
      addVerticesFromEdges ex3_empty ex3_V ex3_V ex3_E 0 =
        bind_r
          (for_each calls (\<lambda>vi local_items.
             addVertex ex3_empty (ex3_V ! nat vi) (ex3_V ! nat vi) vi local_items 0) [])
          (\<lambda>storage. Inr (ex3_empty\<lparr>m_vertexItems := m_vertexItems ex3_empty @ storage\<rparr>))) \<and>
   map_sum id (\<lambda>g. map item_id (m_vertexItems g))
       (addVerticesFromEdges ex3_empty ex3_V ex3_V ex3_E 0) = Inr [3, 4, 0, 1, 2, 5, 6]"
proof -
  have 1: "rows ex3_V = rows ex3_V" by simp
  have 2: "list_all (\<lambda>row. length row = cols ex3_E \<and> distinct row \<and>
            list_all (\<lambda>v. 0 \<le> v \<and> v < int (rows ex3_V)) row) ex3_E"
    by (simp add: ex3_E_def ex3_V_def rows_def cols_def)
  have 3: "set (concat ex3_E) = {0, 1, 2, 3, 4, 5, 6}"
    by (auto simp: ex3_E_def)
  have 4: "map_sum id (\<lambda>g. map item_id (m_vertexItems g))
       (addVerticesFromEdges ex3_empty ex3_V ex3_V ex3_E 0) = Inr [3, 4, 0, 1, 2, 5, 6]"
    by code_simp
  have 5: "resize new_grid [0, 0, 0] [2, 2, 2] 1 = Inr ex3_empty" by code_simp
  from addVerticesFromEdges_once[OF 1 2, of ex3_empty 0] 3 4 5 show ?thesis by auto
qed

text \<open>C5 as stated fails for an edge whose two endpoints are one vertex: the row 0 is the
  minimal row of vertex 0 at both columns, and the item of the vertex is inserted twice.\<close>

theorem addVerticesFromEdges_once_counterexample:
  "resize new_grid [0, 0] [1, 1] 1 = Inr unit_grid \<and>
   addVertex unit_grid [1/2, 1/2] [1/2, 1/2] 0 [] 0 = Inr [point_item] \<and>
   addVerticesFromEdges unit_grid [[1/2, 1/2]] [[1/2, 1/2]] [[0, 0]] 0 =
     Inr (unit_grid\<lparr>m_vertexItems := [point_item, point_item]\<rparr>)"
  by code_simp

text \<open>Claim C1 (completeness) on the 2D example with radius 2. The edge 0 and the vertex 0
  share the cell with key 1, their boxes overlap and both filters are false, but the query
  returns nothing: the first vertex item has key 0, smaller than the key of the only edge
  item, the inner scan stops at once and \<open>j_start\<close> never moves past it.\<close>

theorem completeness_fails_vertex_edge:
  "\<not> isl (ex2_populated 2) \<and>
   map (\<lambda>h. (key h, item_id h)) (m_edgeItems (ex2_grid 2)) = [(1, 0)] \<and>
   map (\<lambda>h. (key h, item_id h)) (m_vertexItems (ex2_grid 2)) =
     [(0, 0), (1, 0), (1, 1), (1, 2)] \<and>
   are_overlapping (aabb (m_edgeItems (ex2_grid 2) ! 0))
                   (aabb (m_vertexItems (ex2_grid 2) ! 1)) = Inr True \<and>
   ev_is_endpoint ex2_E 0 0 = Inr False \<and>
   ev_is_same_group ex2_E [] 0 0 = Inr False \<and>
   map_sum id snd (getVertexEdgePairs (ex2_grid 2) ex2_E [] []) = Inr []"
  by code_simp

text \<open>Claim C6 (inflation monotonicity) on the 2D example: with radius 1 the query returns the
  pair (edge 0, vertex 0), with radius 2 it returns nothing.\<close>

theorem inflation_not_monotone:
  "\<not> isl (ex2_populated 1) \<and> \<not> isl (ex2_populated 2) \<and>
   map_sum id snd (getVertexEdgePairs (ex2_grid 1) ex2_E [] []) = Inr [(0, 0)] \<and>
   map_sum id snd (getVertexEdgePairs (ex2_grid 2) ex2_E [] []) = Inr []"
  by code_simp

end
